theory Spec2Isabelle
  imports Complex_Main "HOL-Library.Monad_Syntax"
begin

section \<open>JavaScript strings and values\<close>

text \<open>
  A JavaScript string is a sequence of UTF-16 code units. The regular expressions of
  \<^verbatim>\<open>extractor.js\<close> name code units beyond Latin-1 (the en dash U+2013 and the em dash
  U+2014), so a code unit is a natural number here. \<open>str\<close> embeds an ASCII literal.
\<close>

type_synonym jsstring = "nat list"

abbreviation str :: "string \<Rightarrow> jsstring" where
  "str s \<equiv> map of_char s"

text \<open>
  A value as \<^verbatim>\<open>JSON.parse\<close> (or the extractor) builds it, with \<open>JUndefined\<close> for a missing
  argument or property. An object is the list of its own properties, the first binding
  of a key being the property. A number is the value of the double, a rational
  (\<^verbatim>\<open>JSON.parse\<close> never yields NaN; the infinities are left out).
\<close>

datatype json =
    JUndefined
  | JNull
  | JBool bool
  | JNum rat
  | JStr jsstring
  | JArr "json list"
  | JObj "(jsstring \<times> json) list"

datatype jstype = TUndefined | TObject | TBoolean | TNumber | TString

fun typeof :: "json \<Rightarrow> jstype" where
  "typeof JUndefined = TUndefined"
| "typeof JNull = TObject"
| "typeof (JBool b) = TBoolean"
| "typeof (JNum q) = TNumber"
| "typeof (JStr s) = TString"
| "typeof (JArr xs) = TObject"
| "typeof (JObj kvs) = TObject"

text \<open>\<^verbatim>\<open>!v\<close> is \<open>\<not> truthy v\<close>.\<close>

fun truthy :: "json \<Rightarrow> bool" where
  "truthy JUndefined = False"
| "truthy JNull = False"
| "truthy (JBool b) = b"
| "truthy (JNum q) = (q \<noteq> 0)"
| "truthy (JStr s) = (s \<noteq> [])"
| "truthy (JArr xs) = True"
| "truthy (JObj kvs) = True"

fun isArray :: "json \<Rightarrow> bool" where
  "isArray (JArr xs) = True"
| "isArray _ = False"

text \<open>\<^verbatim>\<open>String(n)\<close> for a non-negative integer: its decimal digits.\<close>

function dec :: "nat \<Rightarrow> jsstring" where
  "dec n = (if n < 10 then [48 + n] else dec (n div 10) @ [48 + n mod 10])"
  by pat_completeness auto
termination
  by (relation "measure id") auto

declare dec.simps [simp del]

text \<open>
  Reading a property. \<open>None\<close> is the \<^verbatim>\<open>TypeError\<close> that reading a property of
  \<^verbatim>\<open>null\<close> or \<^verbatim>\<open>undefined\<close> throws. \<open>js_get v k\<close> is \<^verbatim>\<open>v.k\<close> for the identifier
  names the source reads (\<^verbatim>\<open>metadata blocks id type level text rows length\<close>), none of
  which is inherited from a prototype except \<^verbatim>\<open>length\<close> of arrays and strings;
  \<open>js_idx v r\<close> is \<^verbatim>\<open>v[r]\<close> for a loop counter \<open>r\<close>.
\<close>

fun js_get :: "json \<Rightarrow> jsstring \<Rightarrow> json option" where
  "js_get JUndefined k = None"
| "js_get JNull k = None"
| "js_get (JObj kvs) k = Some (case map_of kvs k of None \<Rightarrow> JUndefined | Some v \<Rightarrow> v)"
| "js_get (JArr xs) k = Some (if k = str ''length'' then JNum (of_nat (length xs)) else JUndefined)"
| "js_get (JStr s) k = Some (if k = str ''length'' then JNum (of_nat (length s)) else JUndefined)"
| "js_get (JBool b) k = Some JUndefined"
| "js_get (JNum q) k = Some JUndefined"

fun js_idx :: "json \<Rightarrow> nat \<Rightarrow> json option" where
  "js_idx JUndefined r = None"
| "js_idx JNull r = None"
| "js_idx (JObj kvs) r = Some (case map_of kvs (dec r) of None \<Rightarrow> JUndefined | Some v \<Rightarrow> v)"
| "js_idx (JArr xs) r = Some (if r < length xs then xs ! r else JUndefined)"
| "js_idx (JStr s) r = Some (if r < length s then JStr [s ! r] else JUndefined)"
| "js_idx (JBool b) r = Some JUndefined"
| "js_idx (JNum q) r = Some JUndefined"

text \<open>
  \<^verbatim>\<open>a === b\<close>, and the SameValueZero comparison of \<^verbatim>\<open>Set\<close>, \<^verbatim>\<open>Map\<close> and
  \<^verbatim>\<open>Array.prototype.includes\<close> (they differ on NaN only). Primitives compare by value.
  Objects and arrays compare by reference: the values here are trees, every object
  node a reference of its own, so two object operands are never equal. This is exact
  whenever one operand is a primitive, which is the case for every Document of the
  data model (ids, types and levels are primitives).
\<close>

fun strict_eq :: "json \<Rightarrow> json \<Rightarrow> bool" where
  "strict_eq JUndefined JUndefined = True"
| "strict_eq JNull JNull = True"
| "strict_eq (JBool a) (JBool b) = (a = b)"
| "strict_eq (JNum a) (JNum b) = (a = b)"
| "strict_eq (JStr a) (JStr b) = (a = b)"
| "strict_eq _ _ = False"

text \<open>
  Whether \<^verbatim>\<open>`${v}`\<close> throws. A template literal applies ToString. On an object that is
  ToPrimitive with hint string: the property \<^verbatim>\<open>toString\<close> is called if it is callable,
  then \<^verbatim>\<open>valueOf\<close>, and a \<^verbatim>\<open>TypeError\<close> is thrown when neither returns a primitive.
  No JSON value is callable and the inherited \<^verbatim>\<open>valueOf\<close> returns the object itself,
  so an object with an own property \<^verbatim>\<open>toString\<close> throws; every other object prints as
  \<^verbatim>\<open>[object Object]\<close>. An array joins the ToString of its elements
  (\<^verbatim>\<open>null\<close> and \<^verbatim>\<open>undefined\<close> print as the empty string).
\<close>

fun to_string_throws :: "json \<Rightarrow> bool" where
  "to_string_throws (JObj kvs) = (str ''toString'' \<in> fst ` set kvs)"
| "to_string_throws (JArr xs) = (\<exists>x \<in> set xs. to_string_throws x)"
| "to_string_throws _ = False"

section \<open>The validator (validator.js)\<close>

text \<open>
  One constructor per message that \<^verbatim>\<open>validateModifiedJson\<close> pushes; the arguments are
  the values its template literal interpolates (block index, block id, row, column,
  and the offending values).
\<close>

datatype violation =
    RootNotObject  \<comment> \<open>\<^verbatim>\<open>JSON deve ser um objeto.\<close>\<close>
  | MetadataInvalid  \<comment> \<open>\<^verbatim>\<open>Campo "metadata" ausente ou invalido.\<close>\<close>
  | BlocksNotArray  \<comment> \<open>\<^verbatim>\<open>Campo "blocks" deve ser um array.\<close>\<close>
  | BlockInvalid nat  \<comment> \<open>\<^verbatim>\<open>Bloco i: bloco ausente ou invalido.\<close>\<close>
  | BlockIdInvalid nat  \<comment> \<open>\<^verbatim>\<open>Bloco i: campo "id" ausente ou invalido.\<close>\<close>
  | DuplicateId nat jsstring  \<comment> \<open>\<^verbatim>\<open>Bloco i (id): ID duplicado.\<close>\<close>
  | TypeInvalid nat jsstring json  \<comment> \<open>\<^verbatim>\<open>Bloco i (id): tipo "t" invalido. ...\<close>\<close>
  | TypeChanged nat jsstring json json  \<comment> \<open>\<^verbatim>\<open>Bloco i (id): tipo alterado de "o" para "t" ...\<close>\<close>
  | LevelChanged nat jsstring json json  \<comment> \<open>\<^verbatim>\<open>Bloco i (id): nivel do heading alterado de o para l.\<close>\<close>
  | HeadingLevelInvalid nat jsstring  \<comment> \<open>\<^verbatim>\<open>Bloco i (id): heading deve ter "level" numerico >= 1.\<close>\<close>
  | TextNotString nat jsstring  \<comment> \<open>\<^verbatim>\<open>Bloco i (id): campo "text" deve ser uma string.\<close>\<close>
  | ListLevelInvalid nat jsstring  \<comment> \<open>\<^verbatim>\<open>Bloco i (id): list_item deve ter "level" numerico >= 1.\<close>\<close>
  | RowsNotArray nat jsstring  \<comment> \<open>\<^verbatim>\<open>Bloco i (id): campo "rows" deve ser um array.\<close>\<close>
  | RowNotArray nat jsstring nat  \<comment> \<open>\<^verbatim>\<open>Bloco i (id), linha r: deve ser um array de celulas.\<close>\<close>
  | CellInvalid nat jsstring nat nat  \<comment> \<open>\<^verbatim>\<open>Bloco i (id), celula [r][c]: ausente ou invalida.\<close>\<close>
  | CellIdMissing nat jsstring nat nat  \<comment> \<open>\<^verbatim>\<open>Bloco i (id), celula [r][c]: campo "id" ausente.\<close>\<close>
  | CellIdDuplicate nat jsstring nat nat json  \<comment> \<open>\<^verbatim>\<open>Bloco i (id), celula [r][c]: ID duplicado "c".\<close>\<close>
  | CellTextNotString nat jsstring nat nat  \<comment> \<open>\<^verbatim>\<open>Bloco i (id), celula [r][c]: campo "text" deve ser string.\<close>\<close>
  | RowCountChanged nat jsstring json json  \<comment> \<open>\<^verbatim>\<open>Bloco i (id): numero de linhas alterado de o para n.\<close>\<close>
  | CellCountChanged nat jsstring nat json json  \<comment> \<open>\<^verbatim>\<open>Bloco i (id), linha r: numero de celulas alterado de o para n.\<close>\<close>

record vresult =
  valid :: bool
  errors :: "violation list"

text \<open>
  \<^verbatim>\<open>errors.push(`...${v}...`)\<close>: the message is built first, so the push throws
  (\<open>None\<close>) when the ToString of an interpolated value does.
\<close>

definition push_fmt :: "json list \<Rightarrow> violation \<Rightarrow> violation list \<Rightarrow> violation list option" where
  "push_fmt vals e errs = (if \<exists>v \<in> set vals. to_string_throws v then None else Some (errs @ [e]))"

text \<open>
  \<^verbatim>\<open>seenIds\<close>, a \<^verbatim>\<open>Set\<close>. An object or array is found in it by reference only, and each
  node of the candidate is visited once, so only primitives are ever found.
\<close>

definition seen_has :: "json set \<Rightarrow> json \<Rightarrow> bool" where
  "seen_has seen v = (\<exists>u \<in> seen. strict_eq u v)"

text \<open>
  \<^verbatim>\<open>originalBlockMap\<close>, a \<^verbatim>\<open>Map\<close> from \<^verbatim>\<open>block.id\<close> to the block. It is read at
  string keys only (the candidate's id has passed the string check), so a binding
  under a key that is not a string is never seen and is not recorded.
\<close>

fun original_map_loop :: "json list \<Rightarrow> (jsstring \<rightharpoonup> json) \<Rightarrow> (jsstring \<rightharpoonup> json) option" where
  "original_map_loop [] m = Some m"
| "original_map_loop (b # bs) m =
     do {
       k \<leftarrow> js_get b (str ''id'');
       original_map_loop bs (case k of JStr s \<Rightarrow> m(s \<mapsto> b) | _ \<Rightarrow> m)
     }"

definition build_original_map :: "json \<Rightarrow> (jsstring \<rightharpoonup> json) option" where
  "build_original_map original =
     (if truthy original then
        do {
          obs \<leftarrow> js_get original (str ''blocks'');
          case obs of JArr bs \<Rightarrow> original_map_loop bs Map.empty | _ \<Rightarrow> Some Map.empty
        }
      else Some Map.empty)"

definition validTypes :: "json list" where
  "validTypes = [JStr (str ''title''), JStr (str ''heading''), JStr (str ''paragraph''),
                 JStr (str ''list_item''), JStr (str ''table'')]"

definition js_includes :: "json list \<Rightarrow> json \<Rightarrow> bool" where
  "js_includes xs v = (\<exists>u \<in> set xs. strict_eq u v)"

text \<open>\<^verbatim>\<open>typeof block.level !== 'number' || block.level < 1\<close>\<close>

fun level_invalid :: "json \<Rightarrow> bool" where
  "level_invalid (JNum q) = (q < 1)"
| "level_invalid _ = True"

type_synonym vstate = "violation list \<times> json set"

text \<open>The body of the loop over the cells of a row (lines 132 to 148).\<close>

definition validate_cell :: "nat \<Rightarrow> jsstring \<Rightarrow> nat \<Rightarrow> nat \<Rightarrow> json \<Rightarrow> vstate \<Rightarrow> vstate option" where
  "validate_cell i bid r c cell st =
     (case st of (errs, seen) \<Rightarrow>
        if \<not> truthy cell \<or> typeof cell \<noteq> TObject then Some (errs @ [CellInvalid i bid r c], seen)
        else do {
          cid \<leftarrow> js_get cell (str ''id'');
          let errs1 = (if \<not> truthy cid \<or> typeof cid \<noteq> TString
                       then errs @ [CellIdMissing i bid r c] else errs);
          errs2 \<leftarrow> (if seen_has seen cid then push_fmt [cid] (CellIdDuplicate i bid r c cid) errs1
                    else Some errs1);
          let seen1 = (if truthy cid then insert cid seen else seen);
          ctext \<leftarrow> js_get cell (str ''text'');
          let errs3 = (if typeof ctext \<noteq> TString then errs2 @ [CellTextNotString i bid r c] else errs2);
          Some (errs3, seen1)
        })"

fun validate_cells :: "nat \<Rightarrow> jsstring \<Rightarrow> nat \<Rightarrow> nat \<Rightarrow> json list \<Rightarrow> vstate \<Rightarrow> vstate option" where
  "validate_cells i bid r c [] st = Some st"
| "validate_cells i bid r c (cell # cells) st =
     do {
       st1 \<leftarrow> validate_cell i bid r c cell st;
       validate_cells i bid r (Suc c) cells st1
     }"

text \<open>The loop over the rows of a table (lines 126 to 149).\<close>

fun validate_rows :: "nat \<Rightarrow> jsstring \<Rightarrow> nat \<Rightarrow> json list \<Rightarrow> vstate \<Rightarrow> vstate option" where
  "validate_rows i bid r [] st = Some st"
| "validate_rows i bid r (row # rows) st =
     do {
       st1 \<leftarrow> (case row of
                 JArr cells \<Rightarrow> validate_cells i bid r 0 cells st
               | _ \<Rightarrow> Some (fst st @ [RowNotArray i bid r], snd st));
       validate_rows i bid (Suc r) rows st1
     }"

text \<open>
  The comparison of cell counts, row by row (lines 158 to 164), for the row indices
  \<open>rs\<close>. \<open>brows\<close> is the candidate's \<^verbatim>\<open>block.rows\<close>, an array; \<open>orows\<close> is
  \<^verbatim>\<open>origBlock.rows\<close>.
\<close>

fun geometry_rows :: "nat \<Rightarrow> jsstring \<Rightarrow> json list \<Rightarrow> json \<Rightarrow> nat list \<Rightarrow> violation list \<Rightarrow> violation list option" where
  "geometry_rows i bid brows orows [] errs = Some errs"
| "geometry_rows i bid brows orows (r # rs) errs =
     do {
       brow \<leftarrow> js_idx (JArr brows) r;
       orow \<leftarrow> js_idx orows r;
       errs1 \<leftarrow> (if truthy brow \<and> truthy orow then
                   do {
                     bl \<leftarrow> js_get brow (str ''length'');
                     ol \<leftarrow> js_get orow (str ''length'');
                     if \<not> strict_eq bl ol then push_fmt [ol, bl] (CellCountChanged i bid r ol bl) errs
                     else Some errs
                   }
                 else Some errs);
       geometry_rows i bid brows orows rs errs1
     }"

text \<open>
  The structure check of a table that exists in the original (lines 152 to 166).
  In the \<^verbatim>\<open>else\<close> branch the two lengths are equal, so the loop bound
  \<^verbatim>\<open>origBlock.rows.length\<close> is the length of the candidate's array.
\<close>

definition table_geometry :: "nat \<Rightarrow> jsstring \<Rightarrow> json list \<Rightarrow> json \<Rightarrow> violation list \<Rightarrow> violation list option" where
  "table_geometry i bid brows origBlock errs =
     (if \<not> truthy origBlock then Some errs
      else do {
        otype \<leftarrow> js_get origBlock (str ''type'');
        if \<not> strict_eq otype (JStr (str ''table'')) then Some errs
        else do {
          orows \<leftarrow> js_get origBlock (str ''rows'');
          olen \<leftarrow> js_get orows (str ''length'');
          let blen = JNum (of_nat (length brows));
          if \<not> strict_eq blen olen then push_fmt [olen, blen] (RowCountChanged i bid olen blen) errs
          else geometry_rows i bid brows orows [0 ..< length brows] errs
        }
      })"

text \<open>The cross reference with the original (lines 72 to 86).\<close>

definition cross_reference :: "nat \<Rightarrow> jsstring \<Rightarrow> json \<Rightarrow> json \<Rightarrow> violation list \<Rightarrow> violation list option" where
  "cross_reference i bid block origBlock errs =
     (if \<not> truthy origBlock then Some errs
      else do {
        btype \<leftarrow> js_get block (str ''type'');
        otype \<leftarrow> js_get origBlock (str ''type'');
        errs1 \<leftarrow> (if \<not> strict_eq btype otype then push_fmt [otype, btype] (TypeChanged i bid otype btype) errs
                  else Some errs);
        blevel \<leftarrow> js_get block (str ''level'');
        olevel \<leftarrow> js_get origBlock (str ''level'');
        if strict_eq otype (JStr (str ''heading'')) \<and> strict_eq btype (JStr (str ''heading''))
           \<and> \<not> strict_eq blevel olevel
        then push_fmt [olevel, blevel] (LevelChanged i bid olevel blevel) errs1
        else Some errs1
      })"

text \<open>The checks by type for the four kinds of paragraph (lines 90 to 118).\<close>

definition type_checks :: "nat \<Rightarrow> jsstring \<Rightarrow> json \<Rightarrow> json \<Rightarrow> json \<Rightarrow> violation list \<Rightarrow> violation list" where
  "type_checks i bid btype blevel btext errs =
     (let errs1 = (if strict_eq btype (JStr (str ''heading'')) then
                     (let e = (if level_invalid blevel then errs @ [HeadingLevelInvalid i bid] else errs)
                      in if typeof btext \<noteq> TString then e @ [TextNotString i bid] else e)
                   else errs);
          errs2 = (if strict_eq btype (JStr (str ''title'')) then
                     (if typeof btext \<noteq> TString then errs1 @ [TextNotString i bid] else errs1)
                   else errs1);
          errs3 = (if strict_eq btype (JStr (str ''paragraph'')) then
                     (if typeof btext \<noteq> TString then errs2 @ [TextNotString i bid] else errs2)
                   else errs2);
          errs4 = (if strict_eq btype (JStr (str ''list_item'')) then
                     (let e = (if typeof btext \<noteq> TString then errs3 @ [TextNotString i bid] else errs3)
                      in if level_invalid blevel then e @ [ListLevelInvalid i bid] else e)
                   else errs3)
      in errs4)"

text \<open>The checks of a block of type table (lines 121 to 166).\<close>

definition validate_table :: "nat \<Rightarrow> jsstring \<Rightarrow> json \<Rightarrow> json \<Rightarrow> vstate \<Rightarrow> vstate option" where
  "validate_table i bid block origBlock st =
     do {
       rows \<leftarrow> js_get block (str ''rows'');
       case rows of
         JArr brows \<Rightarrow>
           do {
             st4 \<leftarrow> validate_rows i bid 0 brows st;
             errs5 \<leftarrow> table_geometry i bid brows origBlock (fst st4);
             Some (errs5, snd st4)
           }
       | _ \<Rightarrow> Some (fst st @ [RowsNotArray i bid], snd st)
     }"

text \<open>The body of the loop over the blocks (lines 44 to 167); \<open>i\<close> is the block's index.\<close>

definition validate_block :: "(jsstring \<rightharpoonup> json) \<Rightarrow> nat \<Rightarrow> json \<Rightarrow> vstate \<Rightarrow> vstate option" where
  "validate_block omap i block st =
     (case st of (errs, seen) \<Rightarrow>
        if \<not> truthy block \<or> typeof block \<noteq> TObject then Some (errs @ [BlockInvalid i], seen)
        else do {
          idv \<leftarrow> js_get block (str ''id'');
          case idv of
            JStr bid \<Rightarrow>
              if \<not> truthy idv then Some (errs @ [BlockIdInvalid i], seen)
              else do {
                let errs1 = (if seen_has seen idv then errs @ [DuplicateId i bid] else errs);
                let seen1 = insert idv seen;
                btype \<leftarrow> js_get block (str ''type'');
                if \<not> js_includes validTypes btype then
                  do {
                    errs2 \<leftarrow> push_fmt [btype] (TypeInvalid i bid btype) errs1;
                    Some (errs2, seen1)
                  }
                else do {
                  let origBlock = (case omap bid of None \<Rightarrow> JUndefined | Some ob \<Rightarrow> ob);
                  errs2 \<leftarrow> cross_reference i bid block origBlock errs1;
                  blevel \<leftarrow> js_get block (str ''level'');
                  btext \<leftarrow> js_get block (str ''text'');
                  let errs3 = type_checks i bid btype blevel btext errs2;
                  if strict_eq btype (JStr (str ''table'')) then validate_table i bid block origBlock (errs3, seen1)
                  else Some (errs3, seen1)
                }
              }
          | _ \<Rightarrow> Some (errs @ [BlockIdInvalid i], seen)
        })"

fun validate_blocks :: "(jsstring \<rightharpoonup> json) \<Rightarrow> nat \<Rightarrow> json list \<Rightarrow> vstate \<Rightarrow> vstate option" where
  "validate_blocks omap i [] st = Some st"
| "validate_blocks omap i (b # bs) st =
     do {
       st1 \<leftarrow> validate_block omap i b st;
       validate_blocks omap (Suc i) bs st1
     }"

text \<open>
  \<^verbatim>\<open>validateModifiedJson(modified, original)\<close>. \<open>None\<close>: the call throws a
  \<^verbatim>\<open>TypeError\<close>; \<open>Some r\<close>: it returns \<open>r\<close>.
\<close>

definition validateModifiedJson :: "json \<Rightarrow> json \<Rightarrow> vresult option" where
  "validateModifiedJson modified original =
     (if \<not> truthy modified \<or> typeof modified \<noteq> TObject
      then Some \<lparr>valid = False, errors = [RootNotObject]\<rparr>
      else do {
        metadata \<leftarrow> js_get modified (str ''metadata'');
        let errs0 = (if \<not> truthy metadata \<or> typeof metadata \<noteq> TObject then [MetadataInvalid] else []);
        blocks \<leftarrow> js_get modified (str ''blocks'');
        case blocks of
          JArr bs \<Rightarrow>
            do {
              omap \<leftarrow> build_original_map original;
              st \<leftarrow> validate_blocks omap 0 bs (errs0, {});
              Some \<lparr>valid = (fst st = []), errors = fst st\<rparr>
            }
        | _ \<Rightarrow> Some \<lparr>valid = False, errors = [BlocksNotArray]\<rparr>
      })"

section \<open>The extractor (extractor.js)\<close>

subsection \<open>The document tree\<close>

text \<open>
  A node of the DOM that \<^verbatim>\<open>DOMParser\<close> builds: an element (\<^verbatim>\<open>nodeType\<close> 1) with its
  name, its attributes and its children; a text or CDATA node; any other node (a
  comment), whose name is no tag name and which \<^verbatim>\<open>textContent\<close> leaves out.
\<close>

datatype xml =
    Elem jsstring "(jsstring \<times> jsstring) list" "xml list"
  | Text jsstring
  | Other

fun childNodes :: "xml \<Rightarrow> xml list" where
  "childNodes (Elem n a cs) = cs"
| "childNodes _ = []"

fun is_elem :: "jsstring \<Rightarrow> xml \<Rightarrow> bool" where
  "is_elem tag (Elem n a cs) = (n = tag)"
| "is_elem tag _ = False"

text \<open>\<^verbatim>\<open>child.nodeName === tagName\<close> is \<open>is_elem tagName child\<close>.\<close>

definition getFirstChild :: "xml option \<Rightarrow> jsstring \<Rightarrow> xml option" where
  "getFirstChild parent tagName =
     (case parent of None \<Rightarrow> None | Some p \<Rightarrow> find (is_elem tagName) (childNodes p))"

definition getDirectChildren :: "xml \<Rightarrow> jsstring \<Rightarrow> xml list" where
  "getDirectChildren parent tagName = filter (is_elem tagName) (childNodes parent)"

text \<open>\<^verbatim>\<open>getAttribute\<close>; \<open>None\<close> when the attribute is absent.\<close>

fun getAttribute :: "xml \<Rightarrow> jsstring \<Rightarrow> jsstring option" where
  "getAttribute (Elem n a cs) k = map_of a k"
| "getAttribute _ k = None"

fun textContent :: "xml \<Rightarrow> jsstring" where
  "textContent (Text s) = s"
| "textContent Other = []"
| "textContent (Elem n a cs) = concat (map textContent cs)"

subsection \<open>Characters\<close>

text \<open>
  The white space that \<^verbatim>\<open>trim\<close>, \<^verbatim>\<open>parseInt\<close> and the class \<^verbatim>\<open>\s\<close> strip: tab, line
  feed, vertical tab, form feed, carriage return, space, U+00A0, U+1680, U+2000 to
  U+200A, U+2028, U+2029, U+202F, U+205F, U+3000 and U+FEFF.
\<close>

definition is_ws :: "nat \<Rightarrow> bool" where
  "is_ws c = (c \<in> set [9, 10, 11, 12, 13, 32, 160, 5760, 8232, 8233, 8239, 8287, 12288, 65279]
              \<or> (8192 \<le> c \<and> c \<le> 8202))"

definition is_digit :: "nat \<Rightarrow> bool" where
  "is_digit c = (48 \<le> c \<and> c \<le> 57)"

definition trim :: "jsstring \<Rightarrow> jsstring" where
  "trim s = rev (dropWhile is_ws (rev (dropWhile is_ws s)))"

text \<open>
  \<^verbatim>\<open>parseInt(s, 10)\<close> on an attribute value: leading white space, an optional sign, the
  longest run of decimal digits. \<open>None\<close> is NaN (no digit; also an absent
  attribute, whose value is the empty string or \<^verbatim>\<open>null\<close>). The integer is exact here;
  a double is exact up to \<open>2 ^ 53\<close>.
\<close>

definition digits_value :: "jsstring \<Rightarrow> nat" where
  "digits_value ds = foldl (\<lambda>a c. 10 * a + (c - 48)) 0 ds"

definition parseInt :: "jsstring option \<Rightarrow> int option" where
  "parseInt v =
     (case v of
        None \<Rightarrow> None
      | Some s \<Rightarrow>
          (let s1 = dropWhile is_ws s;
               neg = (s1 \<noteq> [] \<and> hd s1 = 45);
               s2 = (if s1 \<noteq> [] \<and> (hd s1 = 45 \<or> hd s1 = 43) then tl s1 else s1);
               ds = takeWhile is_digit s2
           in if ds = [] then None
              else Some (if neg then - int (digits_value ds) else int (digits_value ds))))"

subsection \<open>Plain text\<close>

text \<open>
  \<^verbatim>\<open>getPlainText\<close>: the loop over the children is \<open>plain_children\<close>.
\<close>

fun getPlainText :: "xml \<Rightarrow> jsstring" and plain_children :: "xml list \<Rightarrow> jsstring" where
  "getPlainText (Elem n a cs) = plain_children cs"
| "getPlainText (Text s) = []"
| "getPlainText Other = []"
| "plain_children [] = []"
| "plain_children (Text s # rest) = plain_children rest"
| "plain_children (Other # rest) = plain_children rest"
| "plain_children (Elem n a cs # rest) =
     (if n = str ''w:t'' then textContent (Elem n a cs)
      else if n = str ''w:tab'' then [9]
      else if n = str ''w:br'' then [10]
      else if n \<noteq> str ''w:pPr'' \<and> n \<noteq> str ''w:rPr'' then getPlainText (Elem n a cs)
      else [])
     @ plain_children rest"

subsection \<open>Formatted text\<close>

record segment =
  seg_text :: jsstring
  bold :: bool
  italic :: bool

definition hasBoolProp :: "xml option \<Rightarrow> jsstring \<Rightarrow> bool" where
  "hasBoolProp rPr propName =
     (case getFirstChild rPr propName of
        None \<Rightarrow> False
      | Some prop \<Rightarrow>
          (let val = getAttribute prop (str ''w:val'')
           in val \<noteq> Some (str ''0'') \<and> val \<noteq> Some (str ''false'')))"

text \<open>
  The inner loop of \<^verbatim>\<open>collectFormattedSegments\<close> over the children of a run (lines 86
  to 95), with the run's flags. The functions return the segments that the source pushes
  onto its argument \<^verbatim>\<open>segments\<close>, in order.
\<close>

fun run_segments :: "bool \<Rightarrow> bool \<Rightarrow> xml list \<Rightarrow> segment list" where
  "run_segments b i [] = []"
| "run_segments b i (rc # rest) =
     (if is_elem (str ''w:t'') rc then [\<lparr>seg_text = textContent rc, bold = b, italic = i\<rparr>]
      else if is_elem (str ''w:tab'') rc then [\<lparr>seg_text = [9], bold = False, italic = False\<rparr>]
      else if is_elem (str ''w:br'') rc then [\<lparr>seg_text = [10], bold = False, italic = False\<rparr>]
      else [])
     @ run_segments b i rest"

fun collectFormattedSegments :: "xml \<Rightarrow> segment list"
  and collect_children :: "xml list \<Rightarrow> segment list" where
  "collectFormattedSegments (Elem n a cs) = collect_children cs"
| "collectFormattedSegments (Text s) = []"
| "collectFormattedSegments Other = []"
| "collect_children [] = []"
| "collect_children (Text s # rest) = collect_children rest"
| "collect_children (Other # rest) = collect_children rest"
| "collect_children (Elem n a cs # rest) =
     (if n = str ''w:r'' then
        (let rPr = getFirstChild (Some (Elem n a cs)) (str ''w:rPr'');
             b = hasBoolProp rPr (str ''w:b'');
             i = hasBoolProp rPr (str ''w:i'')
         in run_segments b i cs)
      else if n = str ''w:hyperlink'' then collectFormattedSegments (Elem n a cs)
      else [])
     @ collect_children rest"

text \<open>
  \<^verbatim>\<open>mergeSegments\<close>. The source keeps the merged segments in \<^verbatim>\<open>result\<close> and extends
  its last element; here \<open>merged\<close> is \<^verbatim>\<open>result\<close> without its last element and \<open>cur\<close>
  is that last element.
\<close>

fun merge_loop :: "segment list \<Rightarrow> segment \<Rightarrow> segment list \<Rightarrow> segment list" where
  "merge_loop merged cur [] = merged @ [cur]"
| "merge_loop merged cur (s # rest) =
     (if bold cur = bold s \<and> italic cur = italic s
      then merge_loop merged (cur\<lparr>seg_text := seg_text cur @ seg_text s\<rparr>) rest
      else merge_loop (merged @ [cur]) s rest)"

fun mergeSegments :: "segment list \<Rightarrow> segment list" where
  "mergeSegments [] = []"
| "mergeSegments (s # rest) = merge_loop [] s rest"

fun render_segment :: "segment \<Rightarrow> jsstring" where
  "render_segment seg =
     (if seg_text seg = [] then []
      else if bold seg \<and> italic seg then str ''***'' @ seg_text seg @ str ''***''
      else if bold seg then str ''**'' @ seg_text seg @ str ''**''
      else if italic seg then str ''*'' @ seg_text seg @ str ''*''
      else seg_text seg)"

definition getFormattedText :: "xml \<Rightarrow> jsstring" where
  "getFormattedText pNode = concat (map render_segment (mergeSegments (collectFormattedSegments pNode)))"

subsection \<open>Images\<close>

text \<open>\<^verbatim>\<open>node.getElementsByTagName(tag)\<close>: the descendant elements of that name, in document order.\<close>

fun getElementsByTagName :: "xml \<Rightarrow> jsstring \<Rightarrow> xml list"
  and elements_in :: "xml list \<Rightarrow> jsstring \<Rightarrow> xml list" where
  "getElementsByTagName (Elem n a cs) tag = elements_in cs tag"
| "getElementsByTagName (Text s) tag = []"
| "getElementsByTagName Other tag = []"
| "elements_in [] tag = []"
| "elements_in (c # rest) tag =
     (if is_elem tag c then [c] else []) @ getElementsByTagName c tag @ elements_in rest tag"

definition hasImage :: "xml \<Rightarrow> bool" where
  "hasImage node =
     (\<exists>tag \<in> set [str ''w:drawing'', str ''w:pict'', str ''mc:AlternateContent''].
        getElementsByTagName node tag \<noteq> [])"

definition isImageOnlyParagraph :: "xml \<Rightarrow> bool" where
  "isImageOnlyParagraph pNode = (hasImage pNode \<and> trim (getPlainText pNode) = [])"

subsection \<open>Heading detection\<close>

definition is_sep :: "nat \<Rightarrow> bool" where
  \<comment> \<open>the class \<^verbatim>\<open>[\.\-:)]\<close> with the en dash U+2013 and the em dash U+2014\<close>
  "is_sep c = (c \<in> set [46, 45, 8211, 8212, 58, 41])"

definition is_upper :: "nat \<Rightarrow> bool" where
  \<comment> \<open>the class of \<^verbatim>\<open>A-Z\<close> and the fifteen accented capitals of the second pattern\<close>
  "is_upper c = ((65 \<le> c \<and> c \<le> 90)
     \<or> c \<in> set [193, 192, 194, 195, 201, 200, 202, 205, 207, 211, 212, 213, 214, 218, 199])"

text \<open>\<^verbatim>\<open>s.split('.')\<close>\<close>

fun split_dot :: "jsstring \<Rightarrow> jsstring list" where
  "split_dot [] = [[]]"
| "split_dot (c # cs) =
     (if c = 46 then [] # split_dot cs
      else (case split_dot cs of [] \<Rightarrow> [[c]] | p # ps \<Rightarrow> (c # p) # ps))"

text \<open>A whole match of \<^verbatim>\<open>\d+(?:\.\d+)*\<close>: digits in groups separated by single dots.\<close>

definition dotted_numeral :: "jsstring \<Rightarrow> bool" where
  "dotted_numeral p = (\<forall>part \<in> set (split_dot p). part \<noteq> [] \<and> (\<forall>c \<in> set part. is_digit c))"

text \<open>A match of \<^verbatim>\<open>\s*[\.\-:)]\s*\<close> (with the two dashes) at the start of \<open>r\<close>.\<close>

definition sep_follows :: "jsstring \<Rightarrow> bool" where
  "sep_follows r = (case dropWhile is_ws r of [] \<Rightarrow> False | c # _ \<Rightarrow> is_sep c)"

text \<open>
  The first pattern, anchored at the start. The matcher is greedy and backtracks:
  \<^verbatim>\<open>\d+\<close> and the repetition give back one digit, then one group, at a time. So the
  candidates for the capture are the prefixes that are dotted numerals, from the
  longest to the shortest, and the capture is the first one that a separator follows.
\<close>

definition heading_match1 :: "jsstring \<Rightarrow> jsstring option" where
  "heading_match1 s =
     find (\<lambda>p. dotted_numeral p \<and> sep_follows (drop (length p) s))
          (map (\<lambda>k. take k s) (rev [1 ..< Suc (length s)]))"

text \<open>The second pattern, \<^verbatim>\<open>^(\d+)\s+[A-Z...]\<close>: digits, white space, a capital.\<close>

definition heading_match2 :: "jsstring \<Rightarrow> bool" where
  "heading_match2 s =
     (let ds = takeWhile is_digit s;
          r = dropWhile is_digit s
      in ds \<noteq> [] \<and> takeWhile is_ws r \<noteq> []
         \<and> (case dropWhile is_ws r of [] \<Rightarrow> False | c # _ \<Rightarrow> is_upper c))"

definition detectHeadingByPattern :: "jsstring \<Rightarrow> nat option" where
  "detectHeadingByPattern txt =
     (let trimmed = trim txt
      in case heading_match1 trimmed of
           Some p \<Rightarrow> Some (length (split_dot p))
         | None \<Rightarrow> if heading_match2 trimmed then Some 1 else None)"

subsection \<open>List detection\<close>

definition isListItem :: "xml \<Rightarrow> bool" where
  "isListItem pNode =
     (case getFirstChild (Some pNode) (str ''w:pPr'') of
        None \<Rightarrow> False
      | Some pPr \<Rightarrow> getFirstChild (Some pPr) (str ''w:numPr'') \<noteq> None)"

definition getListLevel :: "xml \<Rightarrow> int" where
  "getListLevel pNode =
     (case getFirstChild (Some pNode) (str ''w:pPr'') of
        None \<Rightarrow> 1
      | Some pPr \<Rightarrow>
          (case getFirstChild (Some pPr) (str ''w:numPr'') of
             None \<Rightarrow> 1
           | Some numPr \<Rightarrow>
               (case getFirstChild (Some numPr) (str ''w:ilvl'') of
                  None \<Rightarrow> 1
                | Some ilvl \<Rightarrow>
                    (case parseInt (getAttribute ilvl (str ''w:val'')) of
                       None \<Rightarrow> 0 | Some v \<Rightarrow> v) + 1)))"

subsection \<open>Classification\<close>

datatype btype = Title | Heading | Paragraph | ListItem | Table

record classified =
  c_type :: btype
  c_level :: "int option"
  c_text :: jsstring

text \<open>
  \<^verbatim>\<open>classifyParagraph\<close>. \<open>headingStyles\<close> is the map that \<^verbatim>\<open>buildHeadingStyleMap\<close>
  builds, as its lookup: \<open>None\<close> where \<^verbatim>\<open>headingStyles[styleVal]\<close> is
  \<^verbatim>\<open>undefined\<close>, the level otherwise.
\<close>

definition classifyParagraph :: "xml \<Rightarrow> (jsstring \<rightharpoonup> int) \<Rightarrow> classified" where
  "classifyParagraph pNode headingStyles =
     (let plainText = trim (getPlainText pNode);
          formattedText = trim (getFormattedText pNode);
          pPr = getFirstChild (Some pNode) (str ''w:pPr'');
          styleLevel =
            (case pPr of
               None \<Rightarrow> None
             | Some _ \<Rightarrow>
                 (case getFirstChild pPr (str ''w:pStyle'') of
                    None \<Rightarrow> None
                  | Some pStyle \<Rightarrow>
                      (case getAttribute pStyle (str ''w:val'') of
                         None \<Rightarrow> None
                       | Some styleVal \<Rightarrow> if styleVal \<noteq> [] then headingStyles styleVal else None)));
          outlineLevel =
            (case pPr of
               None \<Rightarrow> None
             | Some _ \<Rightarrow>
                 (case getFirstChild pPr (str ''w:outlineLvl'') of
                    None \<Rightarrow> None
                  | Some outlineLvl \<Rightarrow>
                      (case parseInt (getAttribute outlineLvl (str ''w:val'')) of
                         None \<Rightarrow> None
                       | Some lvl \<Rightarrow> Some (lvl + 1))))
      in case styleLevel of
           Some lv \<Rightarrow> \<lparr>c_type = Heading, c_level = Some lv, c_text = formattedText\<rparr>
         | None \<Rightarrow>
        (case outlineLevel of
           Some lv \<Rightarrow> \<lparr>c_type = Heading, c_level = Some lv, c_text = formattedText\<rparr>
         | None \<Rightarrow>
        (case detectHeadingByPattern plainText of
           Some patternLevel \<Rightarrow>
             \<lparr>c_type = Heading, c_level = Some (int patternLevel), c_text = formattedText\<rparr>
         | None \<Rightarrow>
             if isListItem pNode
             then \<lparr>c_type = ListItem, c_level = Some (getListLevel pNode), c_text = formattedText\<rparr>
             else \<lparr>c_type = Paragraph, c_level = None, c_text = formattedText\<rparr>)))"

subsection \<open>Blocks and tables\<close>

record cell =
  cell_id :: jsstring
  cell_text :: jsstring

text \<open>
  A block of the output. \<open>b_text\<close>, \<open>b_level\<close> and \<open>b_rows\<close> are \<open>None\<close> where the
  object has no such property.
\<close>

record block =
  b_id :: jsstring
  b_type :: btype
  b_text :: "jsstring option"
  b_level :: "int option"
  b_rows :: "cell list list option"

text \<open>\<^verbatim>\<open>String(index).padStart(4, '0')\<close>\<close>

definition padStart4 :: "jsstring \<Rightarrow> jsstring" where
  "padStart4 s = replicate (4 - length s) 48 @ s"

definition block_id :: "nat \<Rightarrow> jsstring" where
  "block_id index = str ''block_'' @ padStart4 (dec index)"

definition make_cell_id :: "nat \<Rightarrow> nat \<Rightarrow> nat \<Rightarrow> jsstring" where
  "make_cell_id index rowIdx cellIdx =
     str ''cell_'' @ padStart4 (dec index) @ str ''_'' @ dec rowIdx @ str ''_'' @ dec cellIdx"

text \<open>\<^verbatim>\<open>parts.join('\n')\<close>\<close>

fun join_nl :: "jsstring list \<Rightarrow> jsstring" where
  "join_nl [] = []"
| "join_nl [p] = p"
| "join_nl (p # q # ps) = p @ [10] @ join_nl (q # ps)"

fun extract_cells :: "nat \<Rightarrow> nat \<Rightarrow> nat \<Rightarrow> xml list \<Rightarrow> cell list" where
  "extract_cells index rowIdx cellIdx [] = []"
| "extract_cells index rowIdx cellIdx (tc # tcs) =
     \<lparr>cell_id = make_cell_id index rowIdx cellIdx,
      cell_text = trim (join_nl (map getFormattedText (getDirectChildren tc (str ''w:p''))))\<rparr>
     # extract_cells index rowIdx (Suc cellIdx) tcs"

fun extract_rows :: "nat \<Rightarrow> nat \<Rightarrow> xml list \<Rightarrow> cell list list" where
  "extract_rows index rowIdx [] = []"
| "extract_rows index rowIdx (tr # trs) =
     extract_cells index rowIdx 0 (getDirectChildren tr (str ''w:tc''))
     # extract_rows index (Suc rowIdx) trs"

definition extractTable :: "xml \<Rightarrow> nat \<Rightarrow> block" where
  "extractTable tblNode index =
     \<lparr>b_id = block_id index, b_type = Table, b_text = None, b_level = None,
      b_rows = Some (extract_rows index 0 (getDirectChildren tblNode (str ''w:tr'')))\<rparr>"

subsection \<open>The main loop and the title pass\<close>

text \<open>
  The block that the loop pushes for a paragraph at index \<open>currentIdx\<close>, or \<open>None\<close>
  when the paragraph is skipped (only an image, or empty plain text).
\<close>

definition paragraph_block :: "(jsstring \<rightharpoonup> int) \<Rightarrow> nat \<Rightarrow> xml \<Rightarrow> block option" where
  "paragraph_block headingStyles currentIdx child =
     (if isImageOnlyParagraph child then None
      else
        (let result = classifyParagraph child headingStyles;
             plain = trim (getPlainText child)
         in if plain = [] then None
            else Some \<lparr>b_id = block_id currentIdx, b_type = c_type result,
                       b_text = Some (c_text result),
                       b_level = (if c_type result = Heading \<or> c_type result = ListItem
                                  then c_level result else None),
                       b_rows = None\<rparr>))"

text \<open>
  The loop over \<^verbatim>\<open>body.childNodes\<close> (lines 294 to 324): the remaining children, the
  value of \<^verbatim>\<open>blockIndex\<close>, and the blocks pushed so far.
\<close>

fun extract_loop :: "(jsstring \<rightharpoonup> int) \<Rightarrow> xml list \<Rightarrow> nat \<Rightarrow> block list \<Rightarrow> block list" where
  "extract_loop headingStyles [] blockIndex blocks = blocks"
| "extract_loop headingStyles (child # rest) blockIndex blocks =
     (if is_elem (str ''w:p'') child then
        (case paragraph_block headingStyles blockIndex child of
           None \<Rightarrow> extract_loop headingStyles rest (blockIndex + 1) blocks
         | Some b \<Rightarrow> extract_loop headingStyles rest (blockIndex + 1) (blocks @ [b]))
      else if is_elem (str ''w:tbl'') child then
        extract_loop headingStyles rest (blockIndex + 1) (blocks @ [extractTable child blockIndex])
      else extract_loop headingStyles rest blockIndex blocks)"

text \<open>The title pass (lines 327 to 333): the loop breaks at the first heading, table or paragraph.\<close>

fun title_pass :: "block list \<Rightarrow> block list" where
  "title_pass [] = []"
| "title_pass (b # bs) =
     (if b_type b = Heading \<or> b_type b = Table then b # bs
      else if b_type b = Paragraph then b\<lparr>b_type := Title\<rparr> # bs
      else b # title_pass bs)"

record metadata =
  fileName :: jsstring
  extractedAt :: jsstring
  blockCount :: nat
  tableCount :: nat

record document =
  doc_metadata :: metadata
  doc_blocks :: "block list"

datatype extract_error = MissingDocumentXml | MissingBody

text \<open>
  \<^verbatim>\<open>extractDocx\<close> on the unpacked archive: \<open>documentXml\<close> is the parsed
  \<^verbatim>\<open>word/document.xml\<close> as the children of its document node (\<open>None\<close> when the archive
  has no such entry), \<open>headingStyles\<close> the map built from \<^verbatim>\<open>word/styles.xml\<close>,
  \<open>now\<close> the value of \<^verbatim>\<open>new Date().toISOString()\<close>.
\<close>

definition extractDocx :: "xml list option \<Rightarrow> (jsstring \<rightharpoonup> int) \<Rightarrow> jsstring option \<Rightarrow> jsstring \<Rightarrow> extract_error + document" where
  "extractDocx documentXml headingStyles fileNameArg now =
     (case documentXml of
        None \<Rightarrow> Inl MissingDocumentXml
      | Some doc \<Rightarrow>
          (case elements_in doc (str ''w:body'') of
             [] \<Rightarrow> Inl MissingBody
           | body # _ \<Rightarrow>
               (let blocks = title_pass (extract_loop headingStyles (childNodes body) 0 [])
                in Inr \<lparr>doc_metadata =
                          \<lparr>fileName = (case fileNameArg of
                                         None \<Rightarrow> str ''document.docx''
                                       | Some f \<Rightarrow> if f = [] then str ''document.docx'' else f),
                           extractedAt = now,
                           blockCount = length blocks,
                           tableCount = length (filter (\<lambda>b. b_type b = Table) blocks)\<rparr>,
                        doc_blocks = blocks\<rparr>)))"

subsection \<open>The Document as a value\<close>

text \<open>The block objects as the validator reads them: the same properties, as a value.\<close>

fun type_name :: "btype \<Rightarrow> jsstring" where
  "type_name Title = str ''title''"
| "type_name Heading = str ''heading''"
| "type_name Paragraph = str ''paragraph''"
| "type_name ListItem = str ''list_item''"
| "type_name Table = str ''table''"

definition cell_json :: "cell \<Rightarrow> json" where
  "cell_json c = JObj [(str ''id'', JStr (cell_id c)), (str ''text'', JStr (cell_text c))]"

definition block_json :: "block \<Rightarrow> json" where
  "block_json b =
     JObj ([(str ''id'', JStr (b_id b)), (str ''type'', JStr (type_name (b_type b)))]
           @ (case b_text b of None \<Rightarrow> [] | Some t \<Rightarrow> [(str ''text'', JStr t)])
           @ (case b_level b of None \<Rightarrow> [] | Some l \<Rightarrow> [(str ''level'', JNum (of_int l))])
           @ (case b_rows b of None \<Rightarrow> []
              | Some rows \<Rightarrow> [(str ''rows'', JArr (map (\<lambda>row. JArr (map cell_json row)) rows))]))"

definition document_json :: "document \<Rightarrow> json" where
  "document_json d =
     JObj [(str ''metadata'',
            JObj [(str ''fileName'', JStr (fileName (doc_metadata d))),
                  (str ''extractedAt'', JStr (extractedAt (doc_metadata d))),
                  (str ''blockCount'', JNum (of_nat (blockCount (doc_metadata d)))),
                  (str ''tableCount'', JNum (of_nat (tableCount (doc_metadata d))))]),
           (str ''blocks'', JArr (map block_json (doc_blocks d)))]"

section \<open>The reconstructor (reconstructor.js)\<close>

text \<open>
  The module that exports \<^verbatim>\<open>reconstructDocx\<close>: the markdown parser that re-segments a
  new text, and the first loop of \<^verbatim>\<open>reconstructDocx\<close>, which maps the ids to the nodes
  of the original body.
\<close>

subsection \<open>The markdown parser\<close>

text \<open>The characters that \<^verbatim>\<open>.\<close> does not match: the line terminators.\<close>

definition is_line_terminator :: "nat \<Rightarrow> bool" where
  "is_line_terminator c = (c \<in> set [10, 13, 8232, 8233])"

text \<open>
  \<^verbatim>\<open>(.+?)\<close> followed by the closing marker \<open>d\<close>. The quantifier is lazy: with \<open>taken\<close>
  already matched (at least one character), the closing marker is tried first, and only
  when it does not follow is one more character taken. The result is the captured text
  and the input after the closing marker.
\<close>

fun lazy_ext :: "jsstring \<Rightarrow> jsstring \<Rightarrow> jsstring \<Rightarrow> (jsstring \<times> jsstring) option" where
  "lazy_ext d taken [] = None"
| "lazy_ext d taken (c # r) =
     (if take (length d) (c # r) = d then Some (taken, drop (length d) (c # r))
      else if is_line_terminator c then None
      else lazy_ext d (taken @ [c]) r)"

text \<open>One alternative \<^verbatim>\<open>d(.+?)d\<close> at the start of \<open>s\<close>, for a marker \<open>d\<close>.\<close>

definition match_marker :: "jsstring \<Rightarrow> jsstring \<Rightarrow> (jsstring \<times> jsstring) option" where
  "match_marker d s =
     (if take (length d) s = d then
        (case drop (length d) s of
           [] \<Rightarrow> None
         | c # r \<Rightarrow> if is_line_terminator c then None else lazy_ext d [c] r)
      else None)"

text \<open>
  The regular expression at the start of \<open>s\<close>: the three alternatives in the order in
  which it lists them. The result is the segment and the input after the match.
\<close>

definition match_at :: "jsstring \<Rightarrow> (segment \<times> jsstring) option" where
  "match_at s =
     (case match_marker (str ''***'') s of
        Some (t, r) \<Rightarrow> Some (\<lparr>seg_text = t, bold = True, italic = True\<rparr>, r)
      | None \<Rightarrow>
     (case match_marker (str ''**'') s of
        Some (t, r) \<Rightarrow> Some (\<lparr>seg_text = t, bold = True, italic = False\<rparr>, r)
      | None \<Rightarrow>
     (case match_marker (str ''*'') s of
        Some (t, r) \<Rightarrow> Some (\<lparr>seg_text = t, bold = False, italic = True\<rparr>, r)
      | None \<Rightarrow> None)))"

lemma lazy_ext_shorter: "lazy_ext d taken s = Some (t, r) \<Longrightarrow> length r \<le> length s"
proof (induction s arbitrary: taken)
  case Nil
  then show ?case by simp
next
  case (Cons c u)
  show ?case
  proof (cases "take (length d) (c # u) = d")
    case True
    with Cons.prems show ?thesis by auto
  next
    case False
    with Cons.prems have "lazy_ext d (taken @ [c]) u = Some (t, r)"
      by (simp split: if_splits)
    then have "length r \<le> length u" by (rule Cons.IH)
    then show ?thesis by simp
  qed
qed

lemma match_marker_shorter: "match_marker d s = Some (t, r) \<Longrightarrow> length r < length s"
proof -
  assume m: "match_marker d s = Some (t, r)"
  then obtain c u where s: "drop (length d) s = c # u" and l: "lazy_ext d [c] u = Some (t, r)"
    by (auto simp: match_marker_def split: if_splits list.splits)
  have "length r \<le> length u" using l by (rule lazy_ext_shorter)
  moreover have "length u < length s"
  proof -
    have "length (drop (length d) s) = Suc (length u)" using s by simp
    then show ?thesis by simp
  qed
  ultimately show ?thesis by simp
qed

lemma match_at_shorter: "match_at s = Some (seg, r) \<Longrightarrow> length r < length s"
  by (auto simp: match_at_def split: option.splits dest: match_marker_shorter)

text \<open>
  The loop of \<^verbatim>\<open>regex.exec\<close> with the flag \<^verbatim>\<open>g\<close>: the search goes on from
  \<^verbatim>\<open>lastIndex\<close>, one position at a time, to the first position where the expression
  matches. \<open>plain\<close> is the text between \<^verbatim>\<open>lastIndex\<close> and the position of the search.
\<close>

function parse_loop :: "jsstring \<Rightarrow> jsstring \<Rightarrow> segment list" where
  "parse_loop plain [] =
     (if plain \<noteq> [] then [\<lparr>seg_text = plain, bold = False, italic = False\<rparr>] else [])"
| "parse_loop plain (c # r) =
     (case match_at (c # r) of
        Some (seg, rest) \<Rightarrow>
          (if plain \<noteq> [] then [\<lparr>seg_text = plain, bold = False, italic = False\<rparr>] else [])
          @ [seg] @ parse_loop [] rest
      | None \<Rightarrow> parse_loop (plain @ [c]) r)"
  by pat_completeness auto
termination
  by (relation "measure (\<lambda>(plain, s). length s)") (auto dest: match_at_shorter)

definition parseMarkdown :: "jsstring \<Rightarrow> segment list" where
  "parseMarkdown txt =
     (if txt = [] then [\<lparr>seg_text = [], bold = False, italic = False\<rparr>]
      else (let segments = parse_loop [] txt
            in if segments \<noteq> [] then segments
               else [\<lparr>seg_text = txt, bold = False, italic = False\<rparr>]))"

subsection \<open>The mapping of the original blocks\<close>

text \<open>
  The state of the first loop of \<^verbatim>\<open>reconstructDocx\<close> (lines 799 to 835): the map from
  ids to nodes, the templates, and the children that are neither paragraph nor table.
\<close>

record recon_state =
  originalBlockNodes :: "jsstring \<rightharpoonup> xml"
  t_title :: "xml option"
  t_paragraph :: "xml option"
  t_headings :: "int \<rightharpoonup> xml"
  t_list_item :: "xml option"
  t_table :: "xml option"
  nonBlockNodes :: "xml list"

definition recon_init :: recon_state where
  "recon_init = \<lparr>originalBlockNodes = Map.empty, t_title = None, t_paragraph = None,
                  t_headings = Map.empty, t_list_item = None, t_table = None, nonBlockNodes = []\<rparr>"

text \<open>
  The templates that a paragraph sets (lines 812 to 825). \<open>originalJson\<close> is the
  original Document, or \<open>None\<close> for \<^verbatim>\<open>null\<close>; \<open>origBlock\<close> is its first block of that id.
\<close>

definition set_templates :: "document option \<Rightarrow> jsstring \<Rightarrow> xml \<Rightarrow> recon_state \<Rightarrow> recon_state" where
  "set_templates originalJson ident child st =
     (case (case originalJson of None \<Rightarrow> None
            | Some d \<Rightarrow> find (\<lambda>b. b_id b = ident) (doc_blocks d)) of
        Some origBlock \<Rightarrow>
          (if b_type origBlock = Title \<and> t_title st = None then st\<lparr>t_title := Some child\<rparr>
           else if b_type origBlock = Heading \<and> b_level origBlock \<noteq> None \<and> b_level origBlock \<noteq> Some 0 then
             (case b_level origBlock of
                Some l \<Rightarrow> if t_headings st l = None then st\<lparr>t_headings := (t_headings st)(l \<mapsto> child)\<rparr> else st
              | None \<Rightarrow> st)
           else if b_type origBlock = ListItem \<and> t_list_item st = None then st\<lparr>t_list_item := Some child\<rparr>
           else if b_type origBlock = Paragraph \<and> t_paragraph st = None then st\<lparr>t_paragraph := Some child\<rparr>
           else st)
      | None \<Rightarrow> (if t_paragraph st = None then st\<lparr>t_paragraph := Some child\<rparr> else st))"

fun recon_loop :: "document option \<Rightarrow> xml list \<Rightarrow> nat \<Rightarrow> recon_state \<Rightarrow> recon_state" where
  "recon_loop originalJson [] blockIndex st = st"
| "recon_loop originalJson (child # rest) blockIndex st =
     (case child of
        Elem n a cs \<Rightarrow>
          (if n = str ''w:p'' then
             (let ident = block_id blockIndex;
                  st1 = st\<lparr>originalBlockNodes := (originalBlockNodes st)(ident \<mapsto> child)\<rparr>;
                  st2 = set_templates originalJson ident child st1
              in recon_loop originalJson rest (blockIndex + 1) st2)
           else if n = str ''w:tbl'' then
             (let ident = block_id blockIndex;
                  st1 = st\<lparr>originalBlockNodes := (originalBlockNodes st)(ident \<mapsto> child)\<rparr>;
                  st2 = (if t_table st1 = None then st1\<lparr>t_table := Some child\<rparr> else st1)
              in recon_loop originalJson rest (blockIndex + 1) st2)
           else recon_loop originalJson rest blockIndex (st\<lparr>nonBlockNodes := nonBlockNodes st @ [child]\<rparr>))
      | _ \<Rightarrow> recon_loop originalJson rest blockIndex st)"

section \<open>Example documents and auxiliary notions\<close>

text \<open>
  Builders for the markup of the examples: a text element \<^verbatim>\<open><w:t>\<close>, a run
  \<^verbatim>\<open><w:r>\<close> with its properties (\<^verbatim>\<open><w:b/>\<close> when bold, \<^verbatim>\<open><w:i/>\<close> when italic) and
  its content, and a paragraph \<^verbatim>\<open><w:p>\<close> of runs.
\<close>

definition wt :: "jsstring \<Rightarrow> xml" where
  "wt s = Elem (str ''w:t'') [] [Text s]"

definition mk_run :: "bool \<Rightarrow> bool \<Rightarrow> xml list \<Rightarrow> xml" where
  "mk_run b i content =
     Elem (str ''w:r'') []
       (Elem (str ''w:rPr'') []
          ((if b then [Elem (str ''w:b'') [] []] else []) @ (if i then [Elem (str ''w:i'') [] []] else []))
        # content)"

definition mk_para :: "xml list \<Rightarrow> xml" where
  "mk_para runs = Elem (str ''w:p'') [] runs"

text \<open>Paragraph properties \<^verbatim>\<open><w:pPr>\<close> and an element with a \<^verbatim>\<open>w:val\<close> attribute.\<close>

definition mk_ppr :: "xml list \<Rightarrow> xml" where
  "mk_ppr props = Elem (str ''w:pPr'') [] props"

definition mk_val :: "string \<Rightarrow> string \<Rightarrow> xml" where
  "mk_val tag v = Elem (str tag) [(str ''w:val'', str v)] []"



text \<open>
  The children of the body that consume an index, in document order, and the block
  that the extractor's loop pushes for such a node at a given index (\<open>None\<close> for a
  paragraph that is skipped).
\<close>

definition block_nodes :: "xml list \<Rightarrow> xml list" where
  "block_nodes children = filter (\<lambda>c. is_elem (str ''w:p'') c \<or> is_elem (str ''w:tbl'') c) children"

definition emit :: "(jsstring \<rightharpoonup> int) \<Rightarrow> nat \<Rightarrow> xml \<Rightarrow> block option" where
  "emit headingStyles index node =
     (if is_elem (str ''w:p'') node then paragraph_block headingStyles index node
      else Some (extractTable node index))"

text \<open>A result of a validator loop with the violations \<open>p\<close> put in front.\<close>

definition with_prefix :: "violation list \<Rightarrow> vstate option \<Rightarrow> vstate option" where
  "with_prefix p r = map_option (\<lambda>st. (p @ fst st, snd st)) r"

text \<open>
  The shape of the data model, for stating properties of the validator: the string
  value of a property, the items of an array, the id of a block or cell, a Cell
  (\<^verbatim>\<open>{id, text}\<close> with a non-empty id), a row of Cells, the ids of the cells of a
  table, a well-formed candidate table, and a table of the original (rows that are
  arrays). \<open>cell_count_violations\<close> lists, for the row indices \<open>rs\<close>, one cell-count
  violation for each row whose number of cells differs.
\<close>

fun str_field :: "json \<Rightarrow> jsstring \<Rightarrow> jsstring option" where
  "str_field (JObj kvs) k = (case map_of kvs k of Some (JStr s) \<Rightarrow> Some s | _ \<Rightarrow> None)"
| "str_field _ k = None"

fun arr_items :: "json \<Rightarrow> json list" where
  "arr_items (JArr xs) = xs"
| "arr_items _ = []"

fun obj_field :: "json \<Rightarrow> jsstring \<Rightarrow> json" where
  "obj_field (JObj kvs) k = (case map_of kvs k of Some v \<Rightarrow> v | None \<Rightarrow> JUndefined)"
| "obj_field _ k = JUndefined"

definition ident :: "json \<Rightarrow> jsstring" where
  "ident v = (case str_field v (str ''id'') of Some s \<Rightarrow> s | None \<Rightarrow> [])"

definition cell_ok :: "json \<Rightarrow> bool" where
  "cell_ok c = (ident c \<noteq> [] \<and> str_field c (str ''text'') \<noteq> None)"

definition row_ok :: "json \<Rightarrow> bool" where
  "row_ok r = (isArray r \<and> list_all cell_ok (arr_items r))"

definition rows_of :: "json \<Rightarrow> json list" where
  "rows_of b = arr_items (obj_field b (str ''rows''))"

definition rows_ids :: "json list \<Rightarrow> jsstring list" where
  "rows_ids rows = concat (map (\<lambda>r. map ident (arr_items r)) rows)"

definition cell_count_violations :: "nat \<Rightarrow> jsstring \<Rightarrow> json list \<Rightarrow> json list \<Rightarrow> nat list \<Rightarrow> violation list" where
  "cell_count_violations i bid brows orows rs =
     map (\<lambda>r. CellCountChanged i bid r (JNum (of_nat (length (arr_items (orows ! r)))))
                 (JNum (of_nat (length (arr_items (brows ! r))))))
         (filter (\<lambda>r. length (arr_items (brows ! r)) \<noteq> length (arr_items (orows ! r))) rs)"

definition table_ok :: "json \<Rightarrow> bool" where
  "table_ok b = (ident b \<noteq> [] \<and> str_field b (str ''type'') = Some (str ''table'')
                 \<and> isArray (obj_field b (str ''rows'')) \<and> list_all row_ok (rows_of b))"

definition original_table :: "json \<Rightarrow> bool" where
  "original_table ob = (str_field ob (str ''type'') = Some (str ''table'')
                 \<and> isArray (obj_field ob (str ''rows'')) \<and> list_all isArray (rows_of ob))"

text \<open>Builders for the tables of the examples.\<close>

definition mk_cell :: "jsstring \<Rightarrow> json" where
  "mk_cell cid = JObj [(str ''id'', JStr cid), (str ''text'', JStr (str ''x''))]"

definition mk_table :: "jsstring \<Rightarrow> json list list \<Rightarrow> json" where
  "mk_table bid rows =
     JObj [(str ''id'', JStr bid), (str ''type'', JStr (str ''table'')), (str ''rows'', JArr (map JArr rows))]"

text \<open>
  A Document of the data model as a value: \<^verbatim>\<open>metadata\<close> an object, \<^verbatim>\<open>blocks\<close> an array
  of blocks. A block has a non-empty string id and one of the five types; a title or
  paragraph has a string text; a heading or list item has a string text and a numeric
  level of at least 1; a table has rows, an array of rows of Cells. The ids of the
  blocks and of the cells are pairwise distinct (the identity rule).
\<close>

definition level_ok :: "json \<Rightarrow> bool" where
  "level_ok b = (case obj_field b (str ''level'') of JNum q \<Rightarrow> 1 \<le> q | _ \<Rightarrow> False)"

definition block_ok :: "json \<Rightarrow> bool" where
  "block_ok b =
     (ident b \<noteq> [] \<and>
      (case str_field b (str ''type'') of
         None \<Rightarrow> False
       | Some t \<Rightarrow>
           if t = str ''title'' \<or> t = str ''paragraph'' then str_field b (str ''text'') \<noteq> None
           else if t = str ''heading'' \<or> t = str ''list_item''
             then str_field b (str ''text'') \<noteq> None \<and> level_ok b
           else if t = str ''table''
             then isArray (obj_field b (str ''rows'')) \<and> list_all row_ok (rows_of b)
           else False))"

definition block_ids :: "json \<Rightarrow> jsstring list" where
  "block_ids b =
     ident b # (if str_field b (str ''type'') = Some (str ''table'') then rows_ids (rows_of b) else [])"

definition document_ok :: "json \<Rightarrow> bool" where
  "document_ok D =
     (truthy (obj_field D (str ''metadata'')) \<and> typeof (obj_field D (str ''metadata'')) = TObject
      \<and> isArray (obj_field D (str ''blocks''))
      \<and> list_all block_ok (arr_items (obj_field D (str ''blocks'')))
      \<and> distinct (concat (map block_ids (arr_items (obj_field D (str ''blocks''))))))"

text \<open>
  For the blocks that the extractor builds: the ids of a block (its own and those of
  its cells), the properties that every block of the extractor has, and the ids made
  from an index \<open>i\<close> (the block id and the cell ids of that index).
\<close>

definition typed_ids :: "block \<Rightarrow> jsstring list" where
  "typed_ids b = b_id b # (case b_rows b of None \<Rightarrow> [] | Some rows \<Rightarrow> concat (map (map cell_id) rows))"

definition block_wf :: "block \<Rightarrow> bool" where
  "block_wf b =
     (b_id b \<noteq> []
      \<and> (b_type b = Table \<longrightarrow> b_rows b \<noteq> None)
      \<and> (b_type b \<noteq> Table \<longrightarrow> b_text b \<noteq> None \<and> b_rows b = None)
      \<and> (b_type b = Heading \<or> b_type b = ListItem \<longrightarrow> b_level b \<noteq> None)
      \<and> (\<forall>rows. b_rows b = Some rows \<longrightarrow> (\<forall>row \<in> set rows. \<forall>c \<in> set row. cell_id c \<noteq> [])))"

definition ids_at :: "nat \<Rightarrow> jsstring \<Rightarrow> bool" where
  "ids_at i x = (x = block_id i \<or> (\<exists>r c. x = make_cell_id i r c))"

text \<open>
  The document with the single paragraph \<^verbatim>\<open>Hello World\<close>, followed by the section
  properties, and the Document that \<^verbatim>\<open>extractDocx\<close> returns for it.
\<close>

definition hello_docx :: "xml list" where
  "hello_docx =
     [Elem (str ''w:document'') []
        [Elem (str ''w:body'') []
           [mk_para [mk_run False False [wt (str ''Hello World'')]],
            Elem (str ''w:sectPr'') [] []]]]"

definition hello_document :: document where
  "hello_document =
     \<lparr>doc_metadata = \<lparr>fileName = str ''document.docx'', extractedAt = str ''2026-01-01T00:00:00.000Z'',
                       blockCount = 1, tableCount = 0\<rparr>,
      doc_blocks = [\<lparr>b_id = str ''block_0000'', b_type = Title, b_text = Some (str ''Hello World''),
                     b_level = None, b_rows = None\<rparr>]\<rparr>"

text \<open>
  A document whose only paragraph is a list item with \<^verbatim>\<open><w:ilvl w:val="-1"/>\<close>, and the
  Document that \<^verbatim>\<open>extractDocx\<close> returns for it.
\<close>

definition negative_ilvl_docx :: "xml list" where
  "negative_ilvl_docx =
     [Elem (str ''w:document'') []
        [Elem (str ''w:body'') []
           [Elem (str ''w:p'') []
              [Elem (str ''w:pPr'') []
                 [Elem (str ''w:numPr'') []
                    [Elem (str ''w:ilvl'') [(str ''w:val'', str ''-1'')] [],
                     Elem (str ''w:numId'') [(str ''w:val'', str ''1'')] []]],
               mk_run False False [wt (str ''item'')]]]]]"

definition negative_ilvl_document :: document where
  "negative_ilvl_document =
     \<lparr>doc_metadata = \<lparr>fileName = str ''document.docx'', extractedAt = str ''2026-01-01T00:00:00.000Z'',
                       blockCount = 1, tableCount = 0\<rparr>,
      doc_blocks = [\<lparr>b_id = str ''block_0000'', b_type = ListItem, b_text = Some (str ''item''),
                     b_level = Some 0, b_rows = None\<rparr>]\<rparr>"

section \<open>Properties of the validator\<close>

lemmas validator_defs =
  validateModifiedJson_def build_original_map_def validate_block_def validate_table_def validate_cell_def
  table_geometry_def cross_reference_def type_checks_def push_fmt_def seen_has_def
  js_includes_def validTypes_def

text \<open>A result that is returned has \<open>valid\<close> exactly when it has no violation.\<close>

lemma validator_result_shape:
  "validateModifiedJson modified original = Some r \<Longrightarrow> valid r = (errors r = [])"
  by (auto simp: validateModifiedJson_def Let_def split: if_splits Option.bind_splits json.splits)

text \<open>
  C5 (heading stability). The original holds the block
  \<^verbatim>\<open>{id: "block_0002", type: "heading", level: 1}\<close>. A candidate whose block keeps the id
  and the type heading with level 2 and any string text gets exactly one violation, the
  level change; a candidate whose block keeps the id with type paragraph and any string
  text gets exactly one violation, the type change, and no level violation.
\<close>

theorem heading_stability:
  "validateModifiedJson
     (JObj [(str ''metadata'', JObj []),
            (str ''blocks'', JArr [JObj [(str ''id'', JStr (str ''block_0002'')),
                                         (str ''type'', JStr (str ''heading'')),
                                         (str ''level'', JNum 2),
                                         (str ''text'', JStr t)]])])
     (JObj [(str ''blocks'', JArr [JObj [(str ''id'', JStr (str ''block_0002'')),
                                         (str ''type'', JStr (str ''heading'')),
                                         (str ''level'', JNum 1)]])])
   = Some \<lparr>valid = False,
            errors = [LevelChanged 0 (str ''block_0002'') (JNum 1) (JNum 2)]\<rparr>
   \<and>
   validateModifiedJson
     (JObj [(str ''metadata'', JObj []),
            (str ''blocks'', JArr [JObj [(str ''id'', JStr (str ''block_0002'')),
                                         (str ''type'', JStr (str ''paragraph'')),
                                         (str ''text'', JStr t)]])])
     (JObj [(str ''blocks'', JArr [JObj [(str ''id'', JStr (str ''block_0002'')),
                                         (str ''type'', JStr (str ''heading'')),
                                         (str ''level'', JNum 1)]])])
   = Some \<lparr>valid = False,
            errors = [TypeChanged 0 (str ''block_0002'') (JStr (str ''heading''))
                        (JStr (str ''paragraph''))]\<rparr>"
  by (simp add: validator_defs)

theorem heading_stability_witness:
  "validateModifiedJson
     (JObj [(str ''metadata'', JObj []),
            (str ''blocks'', JArr [JObj [(str ''id'', JStr (str ''block_0002'')),
                                         (str ''type'', JStr (str ''heading'')),
                                         (str ''level'', JNum 2),
                                         (str ''text'', JStr (str ''Intro''))]])])
     (JObj [(str ''blocks'', JArr [JObj [(str ''id'', JStr (str ''block_0002'')),
                                         (str ''type'', JStr (str ''heading'')),
                                         (str ''level'', JNum 1)]])])
   = Some \<lparr>valid = False,
            errors = [LevelChanged 0 (str ''block_0002'') (JNum 1) (JNum 2)]\<rparr>
   \<and>
   validateModifiedJson
     (JObj [(str ''metadata'', JObj []),
            (str ''blocks'', JArr [JObj [(str ''id'', JStr (str ''block_0002'')),
                                         (str ''type'', JStr (str ''paragraph'')),
                                         (str ''text'', JStr (str ''Intro''))]])])
     (JObj [(str ''blocks'', JArr [JObj [(str ''id'', JStr (str ''block_0002'')),
                                         (str ''type'', JStr (str ''heading'')),
                                         (str ''level'', JNum 1)]])])
   = Some \<lparr>valid = False,
            errors = [TypeChanged 0 (str ''block_0002'') (JStr (str ''heading''))
                        (JStr (str ''paragraph''))]\<rparr>"
  by (rule heading_stability)

text \<open>
  C6 (the validator never throws). The property fails on the code: a candidate whose
  block has an object with an own property \<^verbatim>\<open>toString\<close> as its \<^verbatim>\<open>type\<close> reaches the
  message \<^verbatim>\<open>tipo "${block.type}" invalido\<close>, whose template literal throws a
  \<^verbatim>\<open>TypeError\<close>, whatever the original is; and an original whose \<^verbatim>\<open>blocks\<close> array holds \<^verbatim>\<open>null\<close> throws at
  \<^verbatim>\<open>block.id\<close> while the map of the original is built.
\<close>

theorem validator_throws:
  "validateModifiedJson
     (JObj [(str ''metadata'', JObj []),
            (str ''blocks'', JArr [JObj [(str ''id'', JStr (str ''a'')),
                                         (str ''type'', JObj [(str ''toString'', JNull)])]])])
     original = None
   \<and>
   validateModifiedJson
     (JObj [(str ''metadata'', JObj []), (str ''blocks'', JArr [])])
     (JObj [(str ''blocks'', JArr [JNull])]) = None"
proof
  show "validateModifiedJson
     (JObj [(str ''metadata'', JObj []),
            (str ''blocks'', JArr [JObj [(str ''id'', JStr (str ''a'')),
                                         (str ''type'', JObj [(str ''toString'', JNull)])]])])
     original = None"
    by (cases "build_original_map original")
       (simp_all add: validateModifiedJson_def validate_block_def push_fmt_def seen_has_def
          js_includes_def validTypes_def)
  show "validateModifiedJson
     (JObj [(str ''metadata'', JObj []), (str ''blocks'', JArr [])])
     (JObj [(str ''blocks'', JArr [JNull])]) = None"
    by (simp add: validator_defs)
qed

theorem validator_throws_witness:
  "validateModifiedJson
     (JObj [(str ''metadata'', JObj []),
            (str ''blocks'', JArr [JObj [(str ''id'', JStr (str ''a'')),
                                         (str ''type'', JObj [(str ''toString'', JNull)])]])])
     (JObj [(str ''blocks'', JArr [JObj [(str ''id'', JStr (str ''a'')),
                                         (str ''type'', JStr (str ''paragraph'')),
                                         (str ''text'', JStr (str ''x''))]])])
   = None"
  using validator_throws by (rule conjunct1)

subsection \<open>Violations accumulate\<close>

text \<open>
  Every loop of the validator appends to the violations it is given: started with the
  violations \<open>p\<close> in front, it returns the same result with \<open>p\<close> in front.
\<close>

lemma with_prefix_simps [simp]:
  "with_prefix p None = None"
  "with_prefix p (Some (e, s)) = Some (p @ e, s)"
  by (simp_all add: with_prefix_def)

lemma push_fmt_prefix:
  "push_fmt vs e (p @ errs) = map_option ((@) p) (push_fmt vs e errs)"
  by (simp add: push_fmt_def)

lemma validate_cell_prefix:
  "validate_cell i bid r c cell (p @ errs, seen) = with_prefix p (validate_cell i bid r c cell (errs, seen))"
proof (cases "\<not> truthy cell \<or> typeof cell \<noteq> TObject")
  case True
  then show ?thesis by (simp add: validate_cell_def)
next
  case False
  then obtain cid ctext where g: "js_get cell (str ''id'') = Some cid" "js_get cell (str ''text'') = Some ctext"
    by (cases cell) auto
  show ?thesis
    using False g by (simp add: validate_cell_def push_fmt_def Let_def)
qed

lemma validate_cells_prefix:
  "validate_cells i bid r c cells (p @ errs, seen) = with_prefix p (validate_cells i bid r c cells (errs, seen))"
proof (induction cells arbitrary: c errs seen)
  case Nil
  then show ?case by simp
next
  case (Cons cell cells)
  show ?case
  proof (cases "validate_cell i bid r c cell (errs, seen)")
    case None
    then show ?thesis by (simp add: validate_cell_prefix)
  next
    case (Some st)
    then show ?thesis by (cases st) (simp add: validate_cell_prefix Cons.IH)
  qed
qed

lemma validate_rows_prefix:
  "validate_rows i bid r rows (p @ errs, seen) = with_prefix p (validate_rows i bid r rows (errs, seen))"
proof (induction rows arbitrary: r errs seen)
  case Nil
  then show ?case by simp
next
  case (Cons row rows)
  show ?case
  proof (cases row)
    case (JArr cells)
    show ?thesis
    proof (cases "validate_cells i bid r 0 cells (errs, seen)")
      case None
      then show ?thesis using JArr by (simp add: validate_cells_prefix)
    next
      case (Some st)
      then show ?thesis using JArr by (cases st) (simp add: validate_cells_prefix Cons.IH)
    qed
  qed (simp_all add: Cons.IH[of _ "errs @ [RowNotArray i bid r]", simplified])
qed

lemma geometry_rows_prefix:
  "geometry_rows i bid brows orows rs (p @ errs) = map_option ((@) p) (geometry_rows i bid brows orows rs errs)"
proof (induction rs arbitrary: errs)
  case Nil
  then show ?case by simp
next
  case (Cons r rs)
  show ?case
  proof (cases "js_idx orows r")
    case None
    then show ?thesis by simp
  next
    case (Some orow)
    define brow where "brow = (if r < length brows then brows ! r else JUndefined)"
    show ?thesis
    proof (cases "truthy brow \<and> truthy orow")
      case False
      then show ?thesis using Some brow_def by (auto simp: Cons.IH)
    next
      case True
      then obtain bl ol where l: "js_get brow (str ''length'') = Some bl" "js_get orow (str ''length'') = Some ol"
        by (cases brow; cases orow) auto
      show ?thesis
      proof (cases "strict_eq bl ol \<or> to_string_throws ol \<or> to_string_throws bl")
        case True
        then show ?thesis using Some \<open>truthy brow \<and> truthy orow\<close> l brow_def
          by (auto simp: Cons.IH push_fmt_def)
      next
        case False
        then show ?thesis using Some \<open>truthy brow \<and> truthy orow\<close> l brow_def
          Cons.IH[of "errs @ [CellCountChanged i bid r ol bl]"]
          by (auto simp: push_fmt_def)
      qed
    qed
  qed
qed

lemma table_geometry_prefix:
  "table_geometry i bid brows origBlock (p @ errs) = map_option ((@) p) (table_geometry i bid brows origBlock errs)"
proof (cases "truthy origBlock")
  case False
  then show ?thesis by (simp add: table_geometry_def)
next
  case True
  then obtain otype orows where g: "js_get origBlock (str ''type'') = Some otype"
      "js_get origBlock (str ''rows'') = Some orows"
    by (cases origBlock) auto
  show ?thesis
  proof (cases "js_get orows (str ''length'')")
    case None
    then show ?thesis using True g by (simp add: table_geometry_def)
  next
    case (Some olen)
    then show ?thesis using True g
      by (simp add: table_geometry_def push_fmt_def geometry_rows_prefix Let_def)
  qed
qed

lemma cross_reference_prefix:
  "cross_reference i bid block origBlock (p @ errs) = map_option ((@) p) (cross_reference i bid block origBlock errs)"
proof (cases "truthy origBlock")
  case False
  then show ?thesis by (simp add: cross_reference_def)
next
  case True
  then obtain otype olevel where g: "js_get origBlock (str ''type'') = Some otype"
      "js_get origBlock (str ''level'') = Some olevel"
    by (cases origBlock) auto
  show ?thesis
  proof (cases "js_get block (str ''type'')")
    case None
    then show ?thesis using True by (simp add: cross_reference_def)
  next
    case (Some btype)
    then obtain blevel where b: "js_get block (str ''level'') = Some blevel"
      by (cases block) auto
    show ?thesis using True g Some b
      by (simp add: cross_reference_def push_fmt_def)
  qed
qed

lemma type_checks_prefix:
  "type_checks i bid btype blevel btext (p @ errs) = p @ type_checks i bid btype blevel btext errs"
  by (simp add: type_checks_def Let_def)

lemma validate_table_prefix:
  "validate_table i bid block origBlock (p @ errs, seen)
     = with_prefix p (validate_table i bid block origBlock (errs, seen))"
proof (cases "js_get block (str ''rows'')")
  case None
  then show ?thesis by (simp add: validate_table_def)
next
  case (Some rows)
  show ?thesis
  proof (cases rows)
    case (JArr brows)
    show ?thesis
    proof (cases "validate_rows i bid 0 brows (errs, seen)")
      case None
      then show ?thesis using Some JArr by (simp add: validate_table_def validate_rows_prefix)
    next
      case st: (Some st4)
      show ?thesis
      proof (cases "table_geometry i bid brows origBlock (fst st4)")
        case None
        then show ?thesis using Some JArr st
          by (cases st4) (simp add: validate_table_def validate_rows_prefix table_geometry_prefix)
      next
        case (Some e5)
        then show ?thesis using \<open>js_get block (str ''rows'') = Some rows\<close> JArr st
          by (cases st4) (simp add: validate_table_def validate_rows_prefix table_geometry_prefix)
      qed
    qed
  qed (simp_all add: validate_table_def Some[simplified])
qed


lemma validate_block_unfold:
  assumes "truthy block" "typeof block = TObject"
    and "js_get block (str ''id'') = Some (JStr bid)" "bid \<noteq> []"
    and "js_get block (str ''type'') = Some btype" "js_includes validTypes btype"
    and "js_get block (str ''level'') = Some blevel" "js_get block (str ''text'') = Some btext"
  shows "validate_block omap i block (e, s) =
     cross_reference i bid block (case omap bid of None \<Rightarrow> JUndefined | Some ob \<Rightarrow> ob)
        (if seen_has s (JStr bid) then e @ [DuplicateId i bid] else e)
     \<bind> (\<lambda>errs2.
        if strict_eq btype (JStr (str ''table''))
        then validate_table i bid block (case omap bid of None \<Rightarrow> JUndefined | Some ob \<Rightarrow> ob)
               (type_checks i bid btype blevel btext errs2, insert (JStr bid) s)
        else Some (type_checks i bid btype blevel btext errs2, insert (JStr bid) s))"
  using assms by (simp add: validate_block_def Let_def)

lemma validate_block_prefix:
  "validate_block omap i block (p @ errs, seen) = with_prefix p (validate_block omap i block (errs, seen))"
proof (cases "\<not> truthy block \<or> typeof block \<noteq> TObject")
  case True
  then show ?thesis by (simp add: validate_block_def)
next
  case False
  then obtain idv btype blevel btext where g: "js_get block (str ''id'') = Some idv"
      "js_get block (str ''type'') = Some btype" "js_get block (str ''level'') = Some blevel"
      "js_get block (str ''text'') = Some btext"
    by (cases block) auto
  show ?thesis
  proof (cases "\<exists>bid. idv = JStr bid \<and> bid \<noteq> []")
    case no: False
    then show ?thesis using False g by (cases idv) (simp_all add: validate_block_def)
  next
    case True
    then obtain bid where bid: "idv = JStr bid" "bid \<noteq> []" by blast
    show ?thesis
    proof (cases "js_includes validTypes btype")
      case inc: False
      then show ?thesis using False g bid
        by (simp add: validate_block_def push_fmt_def)
    next
      case inc: True
      define origBlock where "origBlock = (case omap bid of None \<Rightarrow> JUndefined | Some ob \<Rightarrow> ob)"
      define e1 where "e1 = (if seen_has seen (JStr bid) then errs @ [DuplicateId i bid] else errs)"
      have pe: "(if seen_has seen (JStr bid) then (p @ errs) @ [DuplicateId i bid] else p @ errs) = p @ e1"
        by (simp add: e1_def)
      have t: "truthy block" "typeof block = TObject" using False by simp_all
      note u = validate_block_unfold[OF t g(1)[unfolded bid(1)] bid(2) g(2) inc g(3) g(4), of omap i,
          folded origBlock_def]
      show ?thesis
      proof (cases "cross_reference i bid block origBlock e1")
        case None
        then show ?thesis
          unfolding u pe cross_reference_prefix[of i bid block origBlock p e1]
          by (simp add: e1_def)
      next
        case (Some e2)
        then show ?thesis
          unfolding u pe cross_reference_prefix[of i bid block origBlock p e1]
          by (simp add: e1_def[symmetric] type_checks_prefix validate_table_prefix)
      qed
    qed
  qed
qed

lemma validate_blocks_prefix:
  "validate_blocks omap i bs (p @ errs, seen) = with_prefix p (validate_blocks omap i bs (errs, seen))"
proof (induction bs arbitrary: i errs seen)
  case Nil
  then show ?case by simp
next
  case (Cons b bs)
  show ?case
  proof (cases "validate_block omap i b (errs, seen)")
    case None
    then show ?thesis by (simp add: validate_block_prefix)
  next
    case (Some st)
    then show ?thesis by (cases st) (simp add: validate_block_prefix Cons.IH)
  qed
qed


text \<open>
  C9 (the metadata check). When \<^verbatim>\<open>blocks\<close> is not an array the result is the single
  violation of \<^verbatim>\<open>blocks\<close>, whatever \<^verbatim>\<open>metadata\<close> is. When \<^verbatim>\<open>blocks\<close> is an array and
  \<^verbatim>\<open>metadata\<close> is missing or not an object, the candidate is invalid and its violations
  are the metadata violation followed by the violations of the blocks: exactly those
  that the same candidate gets once its \<^verbatim>\<open>metadata\<close> is an object (\<open>repaired\<close>).
\<close>

theorem metadata_check:
  "(truthy modified \<and> typeof modified = TObject
      \<and> js_get modified (str ''blocks'') = Some bl \<and> \<not> isArray bl
     \<longrightarrow> validateModifiedJson modified original = Some \<lparr>valid = False, errors = [BlocksNotArray]\<rparr>)
   \<and> (truthy candidate \<and> typeof candidate = TObject
      \<and> js_get candidate (str ''metadata'') = Some md \<and> (\<not> truthy md \<or> typeof md \<noteq> TObject)
      \<and> js_get candidate (str ''blocks'') = Some (JArr bs)
      \<and> truthy repaired \<and> typeof repaired = TObject
      \<and> js_get repaired (str ''metadata'') = Some md' \<and> truthy md' \<and> typeof md' = TObject
      \<and> js_get repaired (str ''blocks'') = Some (JArr bs)
     \<longrightarrow> validateModifiedJson candidate original
         = map_option (\<lambda>r. \<lparr>valid = False, errors = MetadataInvalid # errors r\<rparr>)
             (validateModifiedJson repaired original))"
proof (intro conjI impI)
  assume a: "truthy modified \<and> typeof modified = TObject
      \<and> js_get modified (str ''blocks'') = Some bl \<and> \<not> isArray bl"
  then obtain md where "js_get modified (str ''metadata'') = Some md" by (cases modified) auto
  with a show "validateModifiedJson modified original = Some \<lparr>valid = False, errors = [BlocksNotArray]\<rparr>"
    by (cases bl) (simp_all add: validateModifiedJson_def)
next
  assume a: "truthy candidate \<and> typeof candidate = TObject
      \<and> js_get candidate (str ''metadata'') = Some md \<and> (\<not> truthy md \<or> typeof md \<noteq> TObject)
      \<and> js_get candidate (str ''blocks'') = Some (JArr bs)
      \<and> truthy repaired \<and> typeof repaired = TObject
      \<and> js_get repaired (str ''metadata'') = Some md' \<and> truthy md' \<and> typeof md' = TObject
      \<and> js_get repaired (str ''blocks'') = Some (JArr bs)"
  have c: "validateModifiedJson candidate original =
      build_original_map original \<bind> (\<lambda>omap. validate_blocks omap 0 bs ([MetadataInvalid], {})
        \<bind> (\<lambda>st. Some \<lparr>valid = (fst st = []), errors = fst st\<rparr>))"
    using a by (auto simp: validateModifiedJson_def)
  have r: "validateModifiedJson repaired original =
      build_original_map original \<bind> (\<lambda>omap. validate_blocks omap 0 bs ([], {})
        \<bind> (\<lambda>st. Some \<lparr>valid = (fst st = []), errors = fst st\<rparr>))"
    using a by (auto simp: validateModifiedJson_def)
  show "validateModifiedJson candidate original
         = map_option (\<lambda>r. \<lparr>valid = False, errors = MetadataInvalid # errors r\<rparr>)
             (validateModifiedJson repaired original)"
  proof (cases "build_original_map original")
    case None
    then show ?thesis unfolding c r by simp
  next
    case (Some omap)
    have p: "validate_blocks omap 0 bs ([MetadataInvalid], {})
        = with_prefix [MetadataInvalid] (validate_blocks omap 0 bs ([], {}))"
      using validate_blocks_prefix[of omap 0 bs "[MetadataInvalid]" "[]" "{}"] by simp
    show ?thesis
    proof (cases "validate_blocks omap 0 bs ([], {})")
      case None
      then show ?thesis using Some p by (simp add: c r)
    next
      case st: (Some st)
      then show ?thesis using Some p by (cases st) (simp add: c r)
    qed
  qed
qed

theorem metadata_check_witness:
  "validateModifiedJson (JObj [(str ''blocks'', JNum 5)]) JNull
     = Some \<lparr>valid = False, errors = [BlocksNotArray]\<rparr>
   \<and> validateModifiedJson
       (JObj [(str ''blocks'', JArr [JObj [(str ''id'', JStr (str ''a'')), (str ''type'', JStr (str ''paragraph''))]])])
       JNull
     = Some \<lparr>valid = False, errors = [MetadataInvalid, TextNotString 0 (str ''a'')]\<rparr>"
  using metadata_check[of "JObj [(str ''blocks'', JNum 5)]" "JNum 5" JNull
      "JObj [(str ''blocks'', JArr [JObj [(str ''id'', JStr (str ''a'')), (str ''type'', JStr (str ''paragraph''))]])]"
      JUndefined
      "[JObj [(str ''id'', JStr (str ''a'')), (str ''type'', JStr (str ''paragraph''))]]"
      "JObj [(str ''metadata'', JObj []),
             (str ''blocks'', JArr [JObj [(str ''id'', JStr (str ''a'')), (str ''type'', JStr (str ''paragraph''))]])]"
      "JObj []"]
  by (simp add: validator_defs)


subsection \<open>Well-formed tables\<close>

lemma seen_has_strings [simp]: "seen_has (JStr ` S) (JStr s) = (s \<in> S)"
proof -
  have "\<And>u. strict_eq u (JStr s) = (u = JStr s)"
    subgoal for u by (cases u) auto
    done
  then show ?thesis by (auto simp: seen_has_def)
qed

lemma cell_ok_fields:
  assumes "cell_ok c"
  shows "truthy c" "typeof c = TObject" "js_get c (str ''id'') = Some (JStr (ident c))" "ident c \<noteq> []"
    "\<exists>t. js_get c (str ''text'') = Some (JStr t)"
  using assms
  by (cases c; auto simp: cell_ok_def ident_def split: option.splits json.splits)+

lemma validate_cell_ok:
  assumes "cell_ok c" "ident c \<notin> S"
  shows "validate_cell i bid r k c (errs, JStr ` S) = Some (errs, JStr ` insert (ident c) S)"
proof -
  from cell_ok_fields[OF assms(1)] obtain t where f: "truthy c" "typeof c = TObject"
    "js_get c (str ''id'') = Some (JStr (ident c))" "ident c \<noteq> []" "js_get c (str ''text'') = Some (JStr t)"
    by blast
  show ?thesis using f assms(2) by (simp add: validate_cell_def)
qed

lemma validate_cells_ok:
  "list_all cell_ok cells \<Longrightarrow> distinct (map ident cells) \<Longrightarrow> set (map ident cells) \<inter> S = {} \<Longrightarrow>
   validate_cells i bid r k cells (errs, JStr ` S) = Some (errs, JStr ` (S \<union> set (map ident cells)))"
proof (induction cells arbitrary: k S)
  case Nil
  then show ?case by simp
next
  case (Cons c cells)
  have c: "cell_ok c" "ident c \<notin> S" using Cons.prems by auto
  have rest: "list_all cell_ok cells" "distinct (map ident cells)"
    "set (map ident cells) \<inter> insert (ident c) S = {}" using Cons.prems by auto
  have "validate_cells i bid r (Suc k) cells (errs, JStr ` insert (ident c) S)
      = Some (errs, JStr ` (insert (ident c) S \<union> set (map ident cells)))"
    using rest by (rule Cons.IH)
  then show ?case using validate_cell_ok[OF c, of i bid r k errs] by simp
qed

lemma validate_rows_ok:
  "list_all row_ok rows \<Longrightarrow> distinct (rows_ids rows) \<Longrightarrow> set (rows_ids rows) \<inter> S = {} \<Longrightarrow>
   validate_rows i bid r rows (errs, JStr ` S) = Some (errs, JStr ` (S \<union> set (rows_ids rows)))"
proof (induction rows arbitrary: r S)
  case Nil
  then show ?case by (simp add: rows_ids_def)
next
  case (Cons row rows)
  from Cons.prems(1) obtain cells where row: "row = JArr cells" "list_all cell_ok cells"
    by (cases row) (auto simp: row_ok_def)
  have ids: "rows_ids (row # rows) = map ident cells @ rows_ids rows"
    using row by (simp add: rows_ids_def)
  have c: "distinct (map ident cells)" "set (map ident cells) \<inter> S = {}"
    using Cons.prems(2,3) unfolding ids by auto
  have rest: "list_all row_ok rows" "distinct (rows_ids rows)"
    "set (rows_ids rows) \<inter> (S \<union> set (map ident cells)) = {}"
    using Cons.prems unfolding ids by auto
  have "validate_rows i bid (Suc r) rows (errs, JStr ` (S \<union> set (map ident cells)))
      = Some (errs, JStr ` ((S \<union> set (map ident cells)) \<union> set (rows_ids rows)))"
    using rest by (rule Cons.IH)
  then show ?case
    using validate_cells_ok[OF row(2) c, of i bid r 0 errs] row(1) unfolding ids
    by (simp add: Un_assoc)
qed

lemma geometry_rows_arrays:
  "list_all isArray brows \<Longrightarrow> list_all isArray orows \<Longrightarrow> length orows = length brows \<Longrightarrow>
   \<forall>r \<in> set rs. r < length brows \<Longrightarrow>
   geometry_rows i bid brows (JArr orows) rs errs = Some (errs @ cell_count_violations i bid brows orows rs)"
proof (induction rs arbitrary: errs)
  case Nil
  then show ?case by (simp add: cell_count_violations_def)
next
  case (Cons r rs)
  have r: "r < length brows" "r < length orows" using Cons.prems by auto
  then have "isArray (brows ! r)" "isArray (orows ! r)"
    using Cons.prems(1,2) by (auto simp: list_all_length)
  then obtain bc oc where a: "brows ! r = JArr bc" "orows ! r = JArr oc"
    by (cases "brows ! r"; cases "orows ! r") auto
  have ih: "\<And>e. geometry_rows i bid brows (JArr orows) rs e = Some (e @ cell_count_violations i bid brows orows rs)"
    using Cons.prems by (intro Cons.IH) auto
  show ?case using r a ih
    by (simp add: cell_count_violations_def push_fmt_def)
qed


lemma js_get_obj_field: "str_field v k = Some s \<Longrightarrow> js_get v k' = Some (obj_field v k')"
  by (cases v) (auto split: option.splits)

lemma str_field_obj_field: "str_field v k = Some s \<Longrightarrow> obj_field v k = JStr s"
  by (cases v) (auto split: option.splits json.splits)

lemma str_field_truthy: "str_field v k = Some s \<Longrightarrow> truthy v \<and> typeof v = TObject"
  by (cases v) auto

lemma isArray_items: "isArray v \<Longrightarrow> v = JArr (arr_items v)"
  by (cases v) auto

lemma table_geometry_original:
  assumes "original_table ob" "list_all isArray brows"
  shows "table_geometry i bid brows ob errs =
     Some (errs @ (if length brows \<noteq> length (rows_of ob)
                   then [RowCountChanged i bid (JNum (of_nat (length (rows_of ob)))) (JNum (of_nat (length brows)))]
                   else cell_count_violations i bid brows (rows_of ob) [0 ..< length brows]))"
proof -
  have ty: "str_field ob (str ''type'') = Some (str ''table'')" using assms(1) by (simp add: original_table_def)
  have t: "truthy ob" using str_field_truthy[OF ty] by simp
  have g: "js_get ob (str ''type'') = Some (JStr (str ''table''))"
    using js_get_obj_field[OF ty, of "str ''type''"] str_field_obj_field[OF ty] by simp
  have "isArray (obj_field ob (str ''rows''))" using assms(1) by (simp add: original_table_def)
  then have "obj_field ob (str ''rows'') = JArr (rows_of ob)"
    unfolding rows_of_def by (rule isArray_items)
  then have r: "js_get ob (str ''rows'') = Some (JArr (rows_of ob))"
    using js_get_obj_field[OF ty, of "str ''rows''"] by simp
  have oa: "list_all isArray (rows_of ob)" using assms(1) by (simp add: original_table_def)
  show ?thesis
  proof (cases "length brows = length (rows_of ob)")
    case True
    have "geometry_rows i bid brows (JArr (rows_of ob)) [0 ..< length brows] errs
        = Some (errs @ cell_count_violations i bid brows (rows_of ob) [0 ..< length brows])"
      using assms(2) oa True by (intro geometry_rows_arrays) auto
    then show ?thesis using t g r True by (simp add: table_geometry_def)
  next
    case False
    then show ?thesis using t g r by (simp add: table_geometry_def push_fmt_def)
  qed
qed

lemma table_geometry_new: "table_geometry i bid brows JUndefined errs = Some errs"
  by (simp add: table_geometry_def)

lemma list_all_row_ok_isArray: "list_all row_ok rows \<Longrightarrow> list_all isArray rows"
  by (induction rows) (auto simp: row_ok_def)

lemma table_ok_fields:
  assumes "table_ok b"
  shows "truthy b" "typeof b = TObject" "js_get b (str ''id'') = Some (JStr (ident b))" "ident b \<noteq> []"
    "js_get b (str ''type'') = Some (JStr (str ''table''))"
    "js_get b (str ''rows'') = Some (JArr (rows_of b))"
    "\<exists>l. js_get b (str ''level'') = Some l" "\<exists>t. js_get b (str ''text'') = Some t"
proof -
  have ty: "str_field b (str ''type'') = Some (str ''table'')" using assms by (simp add: table_ok_def)
  show "truthy b" "typeof b = TObject" using str_field_truthy[OF ty] by simp_all
  show "ident b \<noteq> []" using assms by (simp add: table_ok_def)
  then obtain s where "str_field b (str ''id'') = Some s" "s = ident b"
    by (auto simp: ident_def split: option.splits)
  then show "js_get b (str ''id'') = Some (JStr (ident b))"
    using js_get_obj_field[OF ty, of "str ''id''"] str_field_obj_field[of b "str ''id''" s] by simp
  show "js_get b (str ''type'') = Some (JStr (str ''table''))"
    using js_get_obj_field[OF ty, of "str ''type''"] str_field_obj_field[OF ty] by simp
  have "isArray (obj_field b (str ''rows''))" using assms by (simp add: table_ok_def)
  then have "obj_field b (str ''rows'') = JArr (rows_of b)"
    unfolding rows_of_def by (rule isArray_items)
  then show "js_get b (str ''rows'') = Some (JArr (rows_of b))"
    using js_get_obj_field[OF ty, of "str ''rows''"] by simp
  show "\<exists>l. js_get b (str ''level'') = Some l" using js_get_obj_field[OF ty] by blast
  show "\<exists>t. js_get b (str ''text'') = Some t" using js_get_obj_field[OF ty] by blast
qed

lemma validTypes_table: "js_includes validTypes (JStr (str ''table''))"
  by (simp add: js_includes_def validTypes_def)

lemma type_checks_table: "type_checks i bid (JStr (str ''table'')) l t errs = errs"
  by (simp add: type_checks_def)

lemma cross_reference_table:
  assumes "table_ok b" "origBlock = JUndefined \<or> original_table origBlock"
  shows "cross_reference i bid b origBlock e = Some e"
proof (cases "origBlock = JUndefined")
  case True
  then show ?thesis by (simp add: cross_reference_def)
next
  case False
  with assms(2) have o: "original_table origBlock" by simp
  then have ty: "str_field origBlock (str ''type'') = Some (str ''table'')" by (simp add: original_table_def)
  have g: "js_get origBlock (str ''type'') = Some (JStr (str ''table''))"
    using js_get_obj_field[OF ty, of "str ''type''"] str_field_obj_field[OF ty] by simp
  obtain ol where ol: "js_get origBlock (str ''level'') = Some ol" using js_get_obj_field[OF ty] by blast
  from table_ok_fields[OF assms(1)] obtain bl where
    f: "js_get b (str ''type'') = Some (JStr (str ''table''))" "js_get b (str ''level'') = Some bl"
    by blast
  show ?thesis using str_field_truthy[OF ty] g ol f by (simp add: cross_reference_def)
qed

lemma validate_table_block:
  assumes ok: "table_ok b"
    and ids: "distinct (ident b # rows_ids (rows_of b))" "set (ident b # rows_ids (rows_of b)) \<inter> S = {}"
    and orig: "omap (ident b) = None \<or> (\<exists>ob. omap (ident b) = Some ob \<and> original_table ob)"
  shows "validate_block omap i b (errs, JStr ` S) =
     Some (errs @ (case omap (ident b) of
                     None \<Rightarrow> []
                   | Some ob \<Rightarrow>
                       if length (rows_of b) \<noteq> length (rows_of ob)
                       then [RowCountChanged i (ident b) (JNum (of_nat (length (rows_of ob))))
                               (JNum (of_nat (length (rows_of b))))]
                       else cell_count_violations i (ident b) (rows_of b) (rows_of ob) [0 ..< length (rows_of b)]),
           JStr ` (S \<union> set (ident b # rows_ids (rows_of b))))"
proof -
  define origBlock where "origBlock = (case omap (ident b) of None \<Rightarrow> JUndefined | Some ob \<Rightarrow> ob)"
  have ob: "origBlock = JUndefined \<or> original_table origBlock"
    using orig unfolding origBlock_def by auto
  from table_ok_fields[OF ok] obtain bl bt where
    f: "truthy b" "typeof b = TObject" "js_get b (str ''id'') = Some (JStr (ident b))" "ident b \<noteq> []"
    "js_get b (str ''type'') = Some (JStr (str ''table''))"
    "js_get b (str ''rows'') = Some (JArr (rows_of b))"
    "js_get b (str ''level'') = Some bl" "js_get b (str ''text'') = Some bt"
    by blast
  have rows: "list_all row_ok (rows_of b)" using ok by (simp add: table_ok_def)
  have notin: "ident b \<notin> S" using ids(2) by auto
  have u: "validate_block omap i b (errs, JStr ` S) =
      validate_table i (ident b) b origBlock (errs, JStr ` insert (ident b) S)"
    using validate_block_unfold[OF f(1,2,3,4,5) validTypes_table f(7,8), of omap i errs "JStr ` S"]
      cross_reference_table[OF ok ob, of i "ident b" errs] notin
      type_checks_table[of i "ident b" bl bt errs]
    unfolding origBlock_def by simp
  have vr: "validate_rows i (ident b) 0 (rows_of b) (errs, JStr ` insert (ident b) S)
      = Some (errs, JStr ` (insert (ident b) S \<union> set (rows_ids (rows_of b))))"
    using rows ids by (intro validate_rows_ok) auto
  have geo: "table_geometry i (ident b) (rows_of b) origBlock errs =
      Some (errs @ (case omap (ident b) of
                     None \<Rightarrow> []
                   | Some ob \<Rightarrow>
                       if length (rows_of b) \<noteq> length (rows_of ob)
                       then [RowCountChanged i (ident b) (JNum (of_nat (length (rows_of ob))))
                               (JNum (of_nat (length (rows_of b))))]
                       else cell_count_violations i (ident b) (rows_of b) (rows_of ob) [0 ..< length (rows_of b)]))"
  proof (cases "omap (ident b)")
    case None
    then show ?thesis unfolding origBlock_def by (simp add: table_geometry_new)
  next
    case (Some x)
    with orig have "original_table x" by simp
    then show ?thesis unfolding origBlock_def Some
      using table_geometry_original[of x "rows_of b" i "ident b" errs] list_all_row_ok_isArray[OF rows]
      by simp
  qed
  show ?thesis unfolding u using f(6) vr geo by (simp add: validate_table_def)
qed


lemmas shape_defs = table_ok_def original_table_def row_ok_def cell_ok_def ident_def rows_of_def
  rows_ids_def cell_count_violations_def mk_cell_def mk_table_def

text \<open>
  C4 (table geometry). Let \<open>b\<close> be a well-formed candidate table block whose ids (its
  own and those of its cells) are distinct and not yet seen. If its id is not an id of
  the original, the block gets no violation, whatever its numbers of rows and cells. If
  its id is that of a table of the original and the numbers of rows differ, it gets
  exactly one violation, the row-count one. If the numbers of rows are equal, it gets
  one cell-count violation for each row index whose number of cells differs, and
  nothing else.
\<close>

theorem table_geometry_enforcement:
  assumes "table_ok b"
    and "distinct (ident b # rows_ids (rows_of b))"
    and "set (ident b # rows_ids (rows_of b)) \<inter> S = {}"
  shows "(omap (ident b) = None \<longrightarrow>
            validate_block omap i b (errs, JStr ` S)
              = Some (errs, JStr ` (S \<union> set (ident b # rows_ids (rows_of b)))))
       \<and> (omap (ident b) = Some ob \<and> original_table ob \<and> length (rows_of b) \<noteq> length (rows_of ob) \<longrightarrow>
            validate_block omap i b (errs, JStr ` S)
              = Some (errs @ [RowCountChanged i (ident b) (JNum (of_nat (length (rows_of ob))))
                                (JNum (of_nat (length (rows_of b))))],
                      JStr ` (S \<union> set (ident b # rows_ids (rows_of b)))))
       \<and> (omap (ident b) = Some ob \<and> original_table ob \<and> length (rows_of b) = length (rows_of ob) \<longrightarrow>
            validate_block omap i b (errs, JStr ` S)
              = Some (errs @ cell_count_violations i (ident b) (rows_of b) (rows_of ob) [0 ..< length (rows_of b)],
                      JStr ` (S \<union> set (ident b # rows_ids (rows_of b)))))"
proof (intro conjI impI)
  assume "omap (ident b) = None"
  then show "validate_block omap i b (errs, JStr ` S)
              = Some (errs, JStr ` (S \<union> set (ident b # rows_ids (rows_of b))))"
    using validate_table_block[OF assms, of omap i errs] by simp
next
  assume "omap (ident b) = Some ob \<and> original_table ob \<and> length (rows_of b) \<noteq> length (rows_of ob)"
  then show "validate_block omap i b (errs, JStr ` S)
              = Some (errs @ [RowCountChanged i (ident b) (JNum (of_nat (length (rows_of ob))))
                                (JNum (of_nat (length (rows_of b))))],
                      JStr ` (S \<union> set (ident b # rows_ids (rows_of b))))"
    using validate_table_block[OF assms, of omap i errs] by simp
next
  assume "omap (ident b) = Some ob \<and> original_table ob \<and> length (rows_of b) = length (rows_of ob)"
  then show "validate_block omap i b (errs, JStr ` S)
              = Some (errs @ cell_count_violations i (ident b) (rows_of b) (rows_of ob) [0 ..< length (rows_of b)],
                      JStr ` (S \<union> set (ident b # rows_ids (rows_of b))))"
    using validate_table_block[OF assms, of omap i errs] by simp
qed

theorem table_geometry_enforcement_witness:
  "map_option fst (validate_block
      [str ''block_0005'' \<mapsto> mk_table (str ''block_0005'')
          [[mk_cell (str ''a''), mk_cell (str ''b''), mk_cell (str ''c'')],
           [mk_cell (str ''d''), mk_cell (str ''e''), mk_cell (str ''f'')]]]
      4
      (mk_table (str ''block_0005'')
          [[mk_cell (str ''a''), mk_cell (str ''b''), mk_cell (str ''c'')],
           [mk_cell (str ''d''), mk_cell (str ''e''), mk_cell (str ''f'')],
           [mk_cell (str ''g''), mk_cell (str ''h''), mk_cell (str ''i'')]])
      ([], {}))
    = Some [RowCountChanged 4 (str ''block_0005'') (JNum 2) (JNum 3)]
   \<and> map_option fst (validate_block
      [str ''block_0005'' \<mapsto> mk_table (str ''block_0005'')
          [[mk_cell (str ''a''), mk_cell (str ''b''), mk_cell (str ''c'')],
           [mk_cell (str ''d''), mk_cell (str ''e''), mk_cell (str ''f'')]]]
      4
      (mk_table (str ''block_0005'')
          [[mk_cell (str ''a''), mk_cell (str ''b''), mk_cell (str ''c'')],
           [mk_cell (str ''d''), mk_cell (str ''e'')]])
      ([], {}))
    = Some [CellCountChanged 4 (str ''block_0005'') 1 (JNum 3) (JNum 2)]
   \<and> map_option fst (validate_block
      [str ''block_0005'' \<mapsto> mk_table (str ''block_0005'')
          [[mk_cell (str ''a''), mk_cell (str ''b''), mk_cell (str ''c'')],
           [mk_cell (str ''d''), mk_cell (str ''e''), mk_cell (str ''f'')]]]
      4
      (mk_table (str ''block_0099'')
          [[mk_cell (str ''a'')],
           [mk_cell (str ''d''), mk_cell (str ''e'')],
           [mk_cell (str ''g'')]])
      ([], {}))
    = Some []"
  using
    table_geometry_enforcement[where b = "mk_table (str ''block_0005'')
          [[mk_cell (str ''a''), mk_cell (str ''b''), mk_cell (str ''c'')],
           [mk_cell (str ''d''), mk_cell (str ''e''), mk_cell (str ''f'')],
           [mk_cell (str ''g''), mk_cell (str ''h''), mk_cell (str ''i'')]]"
      and S = "{}" and i = 4 and errs = "[]"
      and omap = "[str ''block_0005'' \<mapsto> mk_table (str ''block_0005'')
          [[mk_cell (str ''a''), mk_cell (str ''b''), mk_cell (str ''c'')],
           [mk_cell (str ''d''), mk_cell (str ''e''), mk_cell (str ''f'')]]]"
      and ob = "mk_table (str ''block_0005'')
          [[mk_cell (str ''a''), mk_cell (str ''b''), mk_cell (str ''c'')],
           [mk_cell (str ''d''), mk_cell (str ''e''), mk_cell (str ''f'')]]"]
    table_geometry_enforcement[where b = "mk_table (str ''block_0005'')
          [[mk_cell (str ''a''), mk_cell (str ''b''), mk_cell (str ''c'')],
           [mk_cell (str ''d''), mk_cell (str ''e'')]]"
      and S = "{}" and i = 4 and errs = "[]"
      and omap = "[str ''block_0005'' \<mapsto> mk_table (str ''block_0005'')
          [[mk_cell (str ''a''), mk_cell (str ''b''), mk_cell (str ''c'')],
           [mk_cell (str ''d''), mk_cell (str ''e''), mk_cell (str ''f'')]]]"
      and ob = "mk_table (str ''block_0005'')
          [[mk_cell (str ''a''), mk_cell (str ''b''), mk_cell (str ''c'')],
           [mk_cell (str ''d''), mk_cell (str ''e''), mk_cell (str ''f'')]]"]
    table_geometry_enforcement[where b = "mk_table (str ''block_0099'')
          [[mk_cell (str ''a'')],
           [mk_cell (str ''d''), mk_cell (str ''e'')],
           [mk_cell (str ''g'')]]"
      and S = "{}" and i = 4 and errs = "[]"
      and omap = "[str ''block_0005'' \<mapsto> mk_table (str ''block_0005'')
          [[mk_cell (str ''a''), mk_cell (str ''b''), mk_cell (str ''c'')],
           [mk_cell (str ''d''), mk_cell (str ''e''), mk_cell (str ''f'')]]]"
      and ob = "mk_table (str ''block_0005'')
          [[mk_cell (str ''a''), mk_cell (str ''b''), mk_cell (str ''c'')],
           [mk_cell (str ''d''), mk_cell (str ''e''), mk_cell (str ''f'')]]"]
  by (simp add: shape_defs upt_conv_Cons)


subsection \<open>Validating a Document against itself\<close>

lemma cell_count_violations_self: "cell_count_violations i bid rows rows rs = []"
  by (simp add: cell_count_violations_def)

lemma block_ok_table:
  assumes "block_ok b" "str_field b (str ''type'') = Some (str ''table'')"
  shows "table_ok b" "original_table b"
  using assms list_all_row_ok_isArray[of "rows_of b"]
  by (auto simp: block_ok_def table_ok_def original_table_def)

lemma validate_block_self_table:
  assumes ok: "block_ok b" and ty: "str_field b (str ''type'') = Some (str ''table'')"
    and self: "omap (ident b) = Some b"
    and ids: "distinct (block_ids b)" "set (block_ids b) \<inter> S = {}"
  shows "validate_block omap i b ([], JStr ` S) = Some ([], JStr ` (S \<union> set (block_ids b)))"
proof -
  have bi: "block_ids b = ident b # rows_ids (rows_of b)" using ty by (simp add: block_ids_def)
  have "validate_block omap i b ([], JStr ` S) =
     Some ([] @ (case omap (ident b) of
                     None \<Rightarrow> []
                   | Some ob \<Rightarrow>
                       if length (rows_of b) \<noteq> length (rows_of ob)
                       then [RowCountChanged i (ident b) (JNum (of_nat (length (rows_of ob))))
                               (JNum (of_nat (length (rows_of b))))]
                       else cell_count_violations i (ident b) (rows_of b) (rows_of ob) [0 ..< length (rows_of b)]),
           JStr ` (S \<union> set (ident b # rows_ids (rows_of b))))"
    using block_ok_table[OF ok ty] ids self unfolding bi
    by (intro validate_table_block) auto
  then show ?thesis using self bi by (simp add: cell_count_violations_self)
qed

lemma validate_block_self_text:
  assumes ok: "block_ok b" and ty: "str_field b (str ''type'') = Some t" "t \<noteq> str ''table''"
    and self: "omap (ident b) = Some b"
    and ids: "set (block_ids b) \<inter> S = {}"
  shows "validate_block omap i b ([], JStr ` S) = Some ([], JStr ` (S \<union> set (block_ids b)))"
proof -
  have bi: "block_ids b = [ident b]" using ty by (simp add: block_ids_def)
  have notin: "ident b \<notin> S" using ids bi by simp
  have idn: "ident b \<noteq> []" using ok by (simp add: block_ok_def)
  then obtain s where "str_field b (str ''id'') = Some s" "s = ident b"
    by (auto simp: ident_def split: option.splits)
  then have gid: "js_get b (str ''id'') = Some (JStr (ident b))"
    using js_get_obj_field[OF ty(1), of "str ''id''"] str_field_obj_field[of b "str ''id''" s] by simp
  have gty: "js_get b (str ''type'') = Some (JStr t)"
    using js_get_obj_field[OF ty(1), of "str ''type''"] str_field_obj_field[OF ty(1)] by simp
  have tcases: "t = str ''title'' \<or> t = str ''paragraph'' \<or> t = str ''heading'' \<or> t = str ''list_item''"
    using ok ty by (auto simp: block_ok_def split: if_splits)
  then have inc: "js_includes validTypes (JStr t)"
    by (auto simp: js_includes_def validTypes_def)
  obtain tv where tx: "str_field b (str ''text'') = Some tv"
    using ok ty by (auto simp: block_ok_def split: if_splits)
  have gtx: "js_get b (str ''text'') = Some (JStr tv)"
    using js_get_obj_field[OF ty(1), of "str ''text''"] str_field_obj_field[OF tx] by simp
  have glv: "js_get b (str ''level'') = Some (obj_field b (str ''level''))"
    using js_get_obj_field[OF ty(1)] by simp
  have lv: "t = str ''heading'' \<or> t = str ''list_item'' \<Longrightarrow>
      \<exists>q. obj_field b (str ''level'') = JNum q \<and> 1 \<le> q"
    using ok ty by (auto simp: block_ok_def level_ok_def split: if_splits json.splits)
  have tr: "truthy b" "typeof b = TObject" using str_field_truthy[OF ty(1)] by simp_all
  have cr: "cross_reference i (ident b) b b [] = Some []"
  proof (cases "t = str ''heading''")
    case True
    with lv obtain q where "obj_field b (str ''level'') = JNum q" by blast
    then show ?thesis using tr gty glv by (simp add: cross_reference_def)
  next
    case False
    then show ?thesis using tr gty glv by (simp add: cross_reference_def)
  qed
  have tc: "type_checks i (ident b) (JStr t) (obj_field b (str ''level'')) (JStr tv) [] = []"
    using tcases lv by (auto simp: type_checks_def)
  have nt: "\<not> strict_eq (JStr t) (JStr (str ''table''))" using ty(2) by simp
  show ?thesis
    using validate_block_unfold[OF tr gid idn gty inc glv gtx, of omap i "[]" "JStr ` S"]
      cr tc nt notin self bi
    by simp
qed

lemma validate_block_self:
  assumes "block_ok b" "omap (ident b) = Some b" "distinct (block_ids b)" "set (block_ids b) \<inter> S = {}"
  shows "validate_block omap i b ([], JStr ` S) = Some ([], JStr ` (S \<union> set (block_ids b)))"
proof -
  from assms(1) obtain t where t: "str_field b (str ''type'') = Some t"
    by (auto simp: block_ok_def split: option.splits)
  show ?thesis
  proof (cases "t = str ''table''")
    case True
    with t assms show ?thesis by (intro validate_block_self_table) auto
  next
    case False
    with t assms show ?thesis by (intro validate_block_self_text) auto
  qed
qed

lemma validate_blocks_self:
  "list_all block_ok bs \<Longrightarrow> \<forall>b \<in> set bs. omap (ident b) = Some b \<Longrightarrow>
   distinct (concat (map block_ids bs)) \<Longrightarrow> set (concat (map block_ids bs)) \<inter> S = {} \<Longrightarrow>
   validate_blocks omap i bs ([], JStr ` S) = Some ([], JStr ` (S \<union> set (concat (map block_ids bs))))"
proof (induction bs arbitrary: i S)
  case Nil
  then show ?case by simp
next
  case (Cons b bs)
  have b: "block_ok b" "omap (ident b) = Some b" "distinct (block_ids b)" "set (block_ids b) \<inter> S = {}"
    using Cons.prems by auto
  have rest: "list_all block_ok bs" "\<forall>b \<in> set bs. omap (ident b) = Some b"
    "distinct (concat (map block_ids bs))"
    "set (concat (map block_ids bs)) \<inter> (S \<union> set (block_ids b)) = {}"
    using Cons.prems by auto
  have "validate_blocks omap (Suc i) bs ([], JStr ` (S \<union> set (block_ids b)))
      = Some ([], JStr ` ((S \<union> set (block_ids b)) \<union> set (concat (map block_ids bs))))"
    using rest by (rule Cons.IH)
  then show ?case using validate_block_self[where b = b and omap = omap and S = S and i = i, OF b] by (simp add: Un_assoc)
qed

lemma block_ok_id: "block_ok b \<Longrightarrow> js_get b (str ''id'') = Some (JStr (ident b))"
proof -
  assume ok: "block_ok b"
  then obtain t where t: "str_field b (str ''type'') = Some t"
    by (auto simp: block_ok_def split: option.splits)
  from ok have "ident b \<noteq> []" by (simp add: block_ok_def)
  then obtain s where "str_field b (str ''id'') = Some s" "s = ident b"
    by (auto simp: ident_def split: option.splits)
  then show ?thesis
    using js_get_obj_field[OF t, of "str ''id''"] str_field_obj_field[of b "str ''id''" s] by simp
qed

lemma original_map_loop_ok:
  "list_all block_ok bs \<Longrightarrow>
   \<exists>m. original_map_loop bs m0 = Some m
      \<and> (\<forall>k. k \<notin> ident ` set bs \<longrightarrow> m k = m0 k)
      \<and> (distinct (map ident bs) \<longrightarrow> (\<forall>b \<in> set bs. m (ident b) = Some b))"
proof (induction bs arbitrary: m0)
  case Nil
  then show ?case by simp
next
  case (Cons b bs)
  have gid: "js_get b (str ''id'') = Some (JStr (ident b))" using Cons.prems block_ok_id[of b] by simp
  from Cons.prems have "list_all block_ok bs" by simp
  from Cons.IH[OF this, of "m0(ident b \<mapsto> b)"] obtain m where
    m: "original_map_loop bs (m0(ident b \<mapsto> b)) = Some m"
       "\<forall>k. k \<notin> ident ` set bs \<longrightarrow> m k = (m0(ident b \<mapsto> b)) k"
       "distinct (map ident bs) \<longrightarrow> (\<forall>b \<in> set bs. m (ident b) = Some b)"
    by blast
  have "original_map_loop (b # bs) m0 = Some m" using gid m(1) by simp
  moreover have "\<forall>k. k \<notin> ident ` set (b # bs) \<longrightarrow> m k = m0 k" using m(2) by auto
  moreover have "distinct (map ident (b # bs)) \<longrightarrow> (\<forall>x \<in> set (b # bs). m (ident x) = Some x)"
    using m(2,3) by auto
  ultimately show ?case by blast
qed

lemma distinct_block_ids: "distinct (concat (map block_ids bs)) \<Longrightarrow> distinct (map ident bs)"
proof (induction bs)
  case Nil
  then show ?case by simp
next
  case (Cons b bs)
  have "\<And>x. x \<in> set bs \<Longrightarrow> ident x \<in> set (concat (map block_ids bs))"
    by (auto simp: block_ids_def)
  moreover have "ident b \<in> set (block_ids b)" by (simp add: block_ids_def)
  ultimately show ?case using Cons by auto
qed

lemma self_validation:
  assumes "document_ok D"
  shows "validateModifiedJson D D = Some \<lparr>valid = True, errors = []\<rparr>"
proof -
  define bs where "bs = arr_items (obj_field D (str ''blocks''))"
  from assms have arr: "obj_field D (str ''blocks'') = JArr bs"
    unfolding bs_def document_ok_def using isArray_items by blast
  then obtain kvs where D: "D = JObj kvs" by (cases D) auto
  have md: "truthy (obj_field D (str ''metadata''))" "typeof (obj_field D (str ''metadata'')) = TObject"
    using assms by (simp_all add: document_ok_def)
  have ok: "list_all block_ok bs" "distinct (concat (map block_ids bs))"
    using assms by (simp_all add: document_ok_def bs_def)
  have g: "js_get D (str ''metadata'') = Some (obj_field D (str ''metadata''))"
    "js_get D (str ''blocks'') = Some (JArr bs)"
    using D arr by auto
  from original_map_loop_ok[OF ok(1), of Map.empty] distinct_block_ids[OF ok(2)]
  obtain omap where om: "original_map_loop bs Map.empty = Some omap"
    "\<forall>b \<in> set bs. omap (ident b) = Some b" by blast
  have bm: "build_original_map D = Some omap" using D g om(1) by (simp add: build_original_map_def)
  have "validate_blocks omap 0 bs ([], JStr ` {}) = Some ([], JStr ` ({} \<union> set (concat (map block_ids bs))))"
    using ok om(2) by (intro validate_blocks_self) auto
  then show ?thesis using D g md bm by (simp add: validateModifiedJson_def)
qed


section \<open>Properties of the extractor and of the markdown parser\<close>

lemmas fixture_defs = wt_def mk_run_def mk_para_def
lemmas format_defs = getFormattedText_def getFirstChild_def hasBoolProp_def

subsection \<open>Inline formatting\<close>











text \<open>
  C3 (markdown round trip), as the code has it. Three runs flagged bold, italic and
  bold+italic with the contents \<^verbatim>\<open>a\<close>, \<^verbatim>\<open>b\<close>, \<^verbatim>\<open>c\<close> render as \<^verbatim>\<open>**a***b****c***\<close>, and
  that string parses back to exactly those three segments. The string
  \<^verbatim>\<open>**a** *b* ***c***\<close> is the rendering of five runs, the three above with an unformatted
  run of one space between them, and it parses to five segments: the two spaces are
  segments of their own.
\<close>

theorem markdown_round_trip:
  "getFormattedText (mk_para [mk_run True False [wt (str ''a'')], mk_run False True [wt (str ''b'')],
                              mk_run True True [wt (str ''c'')]])
     = str ''**a***b****c***''
   \<and> parseMarkdown (str ''**a***b****c***'') =
       [\<lparr>seg_text = str ''a'', bold = True, italic = False\<rparr>,
        \<lparr>seg_text = str ''b'', bold = False, italic = True\<rparr>,
        \<lparr>seg_text = str ''c'', bold = True, italic = True\<rparr>]
   \<and> getFormattedText (mk_para [mk_run True False [wt (str ''a'')], mk_run False False [wt (str '' '')],
                                mk_run False True [wt (str ''b'')], mk_run False False [wt (str '' '')],
                                mk_run True True [wt (str ''c'')]])
     = str ''**a** *b* ***c***''
   \<and> parseMarkdown (str ''**a** *b* ***c***'') =
       [\<lparr>seg_text = str ''a'', bold = True, italic = False\<rparr>,
        \<lparr>seg_text = str '' '', bold = False, italic = False\<rparr>,
        \<lparr>seg_text = str ''b'', bold = False, italic = True\<rparr>,
        \<lparr>seg_text = str '' '', bold = False, italic = False\<rparr>,
        \<lparr>seg_text = str ''c'', bold = True, italic = True\<rparr>]"
  by (simp add: fixture_defs format_defs parseMarkdown_def match_at_def match_marker_def
        is_line_terminator_def)

text \<open>
  C3 as the specification states it fails on both sides: the three runs do not render
  as \<^verbatim>\<open>**a** *b* ***c***\<close>, and that string does not parse to three segments.
\<close>

theorem markdown_round_trip_counterexample:
  "getFormattedText (mk_para [mk_run True False [wt (str ''a'')], mk_run False True [wt (str ''b'')],
                              mk_run True True [wt (str ''c'')]])
     \<noteq> str ''**a** *b* ***c***''
   \<and> parseMarkdown (str ''**a** *b* ***c***'') \<noteq>
       [\<lparr>seg_text = str ''a'', bold = True, italic = False\<rparr>,
        \<lparr>seg_text = str ''b'', bold = False, italic = True\<rparr>,
        \<lparr>seg_text = str ''c'', bold = True, italic = True\<rparr>]"
  by (simp add: fixture_defs format_defs parseMarkdown_def match_at_def match_marker_def
        is_line_terminator_def)

subsection \<open>Classification\<close>

lemmas classify_defs =
  classifyParagraph_def detectHeadingByPattern_def heading_match1_def heading_match2_def
  trim_def is_ws_def dotted_numeral_def is_digit_def sep_follows_def is_sep_def is_upper_def
  isListItem_def getListLevel_def parseInt_def digits_value_def upt_conv_Cons

text \<open>
  The order of the tests of \<^verbatim>\<open>classifyParagraph\<close> on examples: a heading style wins
  over an outline level, a numbered text and a numbering reference; an outline level
  over the last two; a numbered text over a numbering reference. The second lemma runs
  \<^verbatim>\<open>detectHeadingByPattern\<close> on numbered texts.
\<close>

lemma classification_precedence_examples:
  "classifyParagraph
     (mk_para [mk_ppr [mk_val ''w:pStyle'' ''H'', mk_val ''w:outlineLvl'' ''0'',
                       Elem (str ''w:numPr'') [] [mk_val ''w:ilvl'' ''2'']],
               mk_run False False [wt (str ''1. X'')]])
     [str ''H'' \<mapsto> 3]
     = \<lparr>c_type = Heading, c_level = Some 3, c_text = str ''1. X''\<rparr>"
  "classifyParagraph
     (mk_para [mk_ppr [mk_val ''w:pStyle'' ''Normal'', mk_val ''w:outlineLvl'' ''4'',
                       Elem (str ''w:numPr'') [] [mk_val ''w:ilvl'' ''2'']],
               mk_run False False [wt (str ''1. X'')]])
     [str ''H'' \<mapsto> 3]
     = \<lparr>c_type = Heading, c_level = Some 5, c_text = str ''1. X''\<rparr>"
  "classifyParagraph
     (mk_para [mk_ppr [Elem (str ''w:numPr'') [] [mk_val ''w:ilvl'' ''2'']],
               mk_run False False [wt (str ''1.2. X'')]])
     [str ''H'' \<mapsto> 3]
     = \<lparr>c_type = Heading, c_level = Some 2, c_text = str ''1.2. X''\<rparr>"
  "classifyParagraph
     (mk_para [mk_ppr [Elem (str ''w:numPr'') [] [mk_val ''w:ilvl'' ''2'']],
               mk_run False False [wt (str ''abc'')]])
     [str ''H'' \<mapsto> 3]
     = \<lparr>c_type = ListItem, c_level = Some 3, c_text = str ''abc''\<rparr>"
  "classifyParagraph (mk_para [mk_run False False [wt (str ''abc'')]]) [str ''H'' \<mapsto> 3]
     = \<lparr>c_type = Paragraph, c_level = None, c_text = str ''abc''\<rparr>"
  by (simp_all add: fixture_defs format_defs classify_defs mk_ppr_def mk_val_def)

lemma numbered_heading_examples:
  "detectHeadingByPattern (str ''1. OBJETIVO'') = Some 1"
  "detectHeadingByPattern (str ''2.1 - Cabecalho'') = Some 2"
  "detectHeadingByPattern (str ''2.1.1. Detalhe'') = Some 3"
  "detectHeadingByPattern (str ''1 OBJETIVO'') = Some 1"
  "detectHeadingByPattern (str ''2.1 Detalhe'') = Some 1"
  by (simp_all add: classify_defs)

text \<open>
  C7 (classification). The numbered-heading pattern does not give the number of
  components of the numeral: on the text \<^verbatim>\<open>2.1.1 Detalhe\<close>, which the comment of
  \<^verbatim>\<open>detectHeadingByPattern\<close> documents as level 3, the expression asks for a separator
  after the numeral, finds none after \<^verbatim>\<open>2.1.1\<close>, backtracks to the prefix \<^verbatim>\<open>2.1\<close> followed
  by the separator \<^verbatim>\<open>.\<close>, and the paragraph is a heading of level 2.
\<close>

theorem numbered_heading_level:
  "detectHeadingByPattern (str ''2.1.1 Detalhe'') = Some 2
   \<and> classifyParagraph (mk_para [mk_run False False [wt (str ''2.1.1 Detalhe'')]]) Map.empty
     = \<lparr>c_type = Heading, c_level = Some 2, c_text = str ''2.1.1 Detalhe''\<rparr>"
  by (simp add: fixture_defs format_defs classify_defs)

subsection \<open>The index of a block\<close>

lemma digits_value_dec: "digits_value (dec n) = n"
proof (induction n rule: dec.induct)
  case (1 n)
  show ?case
  proof (cases "n < 10")
    case True
    then show ?thesis by (simp add: dec.simps[of n] digits_value_def)
  next
    case False
    with 1 have "digits_value (dec (n div 10)) = n div 10" by simp
    with False show ?thesis by (simp add: dec.simps[of n] digits_value_def)
  qed
qed

lemma digits_value_zeros: "digits_value (replicate k 48 @ ds) = digits_value ds"
  by (induction k) (simp_all add: digits_value_def)

lemma digits_value_padStart4: "digits_value (padStart4 (dec n)) = n"
  by (simp add: padStart4_def digits_value_zeros digits_value_dec)

lemma block_id_inj: "block_id i = block_id j \<Longrightarrow> i = j"
proof -
  assume "block_id i = block_id j"
  then have "padStart4 (dec i) = padStart4 (dec j)" by (simp add: block_id_def)
  then have "digits_value (padStart4 (dec i)) = digits_value (padStart4 (dec j))" by simp
  then show "i = j" by (simp add: digits_value_padStart4)
qed

lemma extract_loop_enumerate:
  "extract_loop hs cs idx acc
     = acc @ List.map_filter (\<lambda>(i, n). emit hs i n) (enumerate idx (block_nodes cs))"
proof (induction cs arbitrary: idx acc)
  case Nil
  then show ?case by (simp add: block_nodes_def List.map_filter_simps)
next
  case (Cons c cs)
  show ?case
  proof (cases "is_elem (str ''w:p'') c")
    case True
    then show ?thesis
      by (cases "paragraph_block hs idx c")
         (simp_all add: Cons.IH block_nodes_def emit_def List.map_filter_simps)
  next
    case False
    then show ?thesis
      by (cases "is_elem (str ''w:tbl'') c")
         (simp_all add: Cons.IH block_nodes_def emit_def List.map_filter_simps)
  qed
qed

lemma emit_id: "emit hs i n = Some b \<Longrightarrow> b_id b = block_id i"
  by (auto simp: emit_def paragraph_block_def extractTable_def Let_def split: if_splits)

lemma title_pass_ids: "map b_id (title_pass bs) = map b_id bs"
  by (induction bs) simp_all

lemma set_templates_nodes: "originalBlockNodes (set_templates oj key child st) = originalBlockNodes st"
  by (simp add: set_templates_def split: option.splits)

lemma recon_loop_other:
  "\<forall>j\<ge>idx. k \<noteq> block_id j \<Longrightarrow>
   originalBlockNodes (recon_loop oj cs idx st) k = originalBlockNodes st k"
proof (induction cs arbitrary: idx st)
  case Nil
  then show ?case by simp
next
  case (Cons c cs)
  have later: "\<forall>j\<ge>idx + 1. k \<noteq> block_id j" using Cons.prems by simp
  have here: "k \<noteq> block_id idx" using Cons.prems by simp
  show ?case
  proof (cases c)
    case (Elem n a ds)
    then show ?thesis
      using Cons.IH[OF later] Cons.IH[OF Cons.prems] here
      by (simp add: Let_def set_templates_nodes)
  next
    case (Text s)
    then show ?thesis using Cons.IH[OF Cons.prems] by simp
  next
    case Other
    then show ?thesis using Cons.IH[OF Cons.prems] by simp
  qed
qed

lemma recon_loop_nodes:
  "i < length (block_nodes cs) \<Longrightarrow>
   originalBlockNodes (recon_loop oj cs idx st) (block_id (idx + i)) = Some (block_nodes cs ! i)"
proof (induction cs arbitrary: idx st i)
  case Nil
  then show ?case by (simp add: block_nodes_def)
next
  case (Cons c cs)
  show ?case
  proof (cases "is_elem (str ''w:p'') c \<or> is_elem (str ''w:tbl'') c")
    case False
    then have bn: "block_nodes (c # cs) = block_nodes cs" by (simp add: block_nodes_def)
    have step: "recon_loop oj (c # cs) idx st = recon_loop oj cs idx
        (case c of Elem n a ds \<Rightarrow> st\<lparr>nonBlockNodes := nonBlockNodes st @ [c]\<rparr> | _ \<Rightarrow> st)"
      using False by (cases c) simp_all
    show ?thesis unfolding step using Cons.prems bn Cons.IH by simp
  next
    case True
    then have bn: "block_nodes (c # cs) = c # block_nodes cs" by (simp add: block_nodes_def)
    from True obtain st2 where step: "recon_loop oj (c # cs) idx st = recon_loop oj cs (idx + 1) st2"
      and st2: "originalBlockNodes st2 = (originalBlockNodes st)(block_id idx \<mapsto> c)"
      by (cases c) (auto simp: Let_def set_templates_nodes)
    show ?thesis
    proof (cases i)
      case 0
      have "\<forall>j\<ge>idx + 1. block_id idx \<noteq> block_id j"
        using block_id_inj by fastforce
      then have "originalBlockNodes (recon_loop oj cs (idx + 1) st2) (block_id idx)
          = originalBlockNodes st2 (block_id idx)" by (rule recon_loop_other)
      with 0 bn step st2 show ?thesis by simp
    next
      case (Suc i')
      with Cons.prems bn have "i' < length (block_nodes cs)" by simp
      then have "originalBlockNodes (recon_loop oj cs (idx + 1) st2) (block_id (idx + 1 + i'))
          = Some (block_nodes cs ! i')" by (rule Cons.IH)
      with Suc bn step show ?thesis by simp
    qed
  qed
qed

lemma extractDocx_blocks:
  "extractDocx (Some doc) hs f now = Inr d \<Longrightarrow>
   elements_in doc (str ''w:body'') \<noteq> []
   \<and> doc_blocks d = title_pass (extract_loop hs (childNodes (hd (elements_in doc (str ''w:body'')))) 0 [])"
  by (auto simp: extractDocx_def Let_def split: list.splits)

text \<open>
  C1 (index stability). The blocks of \<^verbatim>\<open>extractDocx\<close> are the title pass of the loop
  over the children of the body (\<open>extractDocx_blocks\<close>). That loop gives the nodes that are \<^verbatim>\<open>w:p\<close> or
  \<^verbatim>\<open>w:tbl\<close> the indices 0, 1, 2, ... in document order, one each, whether the node is
  emitted or skipped; an emitted block has the id \<^verbatim>\<open>block_%04d\<close> of its node's index,
  and the title pass keeps the ids. The loop of \<^verbatim>\<open>reconstructDocx\<close> over the same children
  maps the id of index \<open>k\<close> to the \<open>k\<close>-th such node, and different indices have
  different ids. Both are functions of the markup alone.
\<close>

theorem index_agreement:
  "extract_loop hs cs 0 [] = List.map_filter (\<lambda>(i, n). emit hs i n) (enumerate 0 (block_nodes cs))
   \<and> (emit hs i n = Some b \<longrightarrow> b_id b = block_id i)
   \<and> map b_id (title_pass bs) = map b_id bs
   \<and> (k < length (block_nodes cs) \<longrightarrow>
        originalBlockNodes (recon_loop oj cs 0 recon_init) (block_id k) = Some (block_nodes cs ! k))
   \<and> (block_id i = block_id j \<longrightarrow> i = j)"
  using extract_loop_enumerate[of hs cs 0 "[]"] emit_id[of hs i n b] title_pass_ids[of bs]
    recon_loop_nodes[of k cs oj 0 recon_init] block_id_inj[of i j]
  by simp

theorem index_agreement_witness:
  "originalBlockNodes
      (recon_loop None [mk_para [mk_run False False [wt (str ''x'')]], Elem (str ''w:sectPr'') [] [],
                        mk_para [], Elem (str ''w:tbl'') [] []] 0 recon_init)
      (block_id 2) = Some (Elem (str ''w:tbl'') [] [])
   \<and> b_id (extractTable (Elem (str ''w:tbl'') [] []) 2) = block_id 2"
  using index_agreement[of Map.empty
      "[mk_para [mk_run False False [wt (str ''x'')]], Elem (str ''w:sectPr'') [] [],
        mk_para [], Elem (str ''w:tbl'') [] []]"
      2 "Elem (str ''w:tbl'') [] []" "extractTable (Elem (str ''w:tbl'') [] []) 2" "[]" 2 None 2]
  by (simp add: block_nodes_def emit_def fixture_defs)

subsection \<open>The title pass\<close>






subsection \<open>Extracted Documents and the validator\<close>

lemmas extract_defs = extractDocx_def paragraph_block_def isImageOnlyParagraph_def hasImage_def
  block_id_def padStart4_def dec.simps extractTable_def make_cell_id_def numeral_3_eq_3
lemmas json_defs = document_json_def block_json_def cell_json_def


text \<open>
  The blocks of the extractor as values of the data model. Every block has the
  properties of its type, and the ids of all blocks and cells are pairwise distinct,
  because an id determines its index (and row and column). So a Document of
  \<^verbatim>\<open>extractDocx\<close> is a Document of the data model, and validates against itself, as soon
  as every level in it is at least 1 (\<open>extracted_self_validation\<close>).
\<close>

lemma block_json_fields:
  "str_field (block_json b) (str ''id'') = Some (b_id b)"
  "str_field (block_json b) (str ''type'') = Some (type_name (b_type b))"
  "str_field (block_json b) (str ''text'') = b_text b"
  "obj_field (block_json b) (str ''level'') = (case b_level b of None \<Rightarrow> JUndefined | Some l \<Rightarrow> JNum (of_int l))"
  "obj_field (block_json b) (str ''rows'')
     = (case b_rows b of None \<Rightarrow> JUndefined | Some rows \<Rightarrow> JArr (map (\<lambda>row. JArr (map cell_json row)) rows))"
  by (simp_all add: block_json_def split: option.splits)

lemma type_name_eq:
  "(type_name t = str ''title'') = (t = Title)"
  "(type_name t = str ''heading'') = (t = Heading)"
  "(type_name t = str ''paragraph'') = (t = Paragraph)"
  "(type_name t = str ''list_item'') = (t = ListItem)"
  "(type_name t = str ''table'') = (t = Table)"
  by (cases t; simp)+

lemma cell_json_ok: "cell_id c \<noteq> [] \<Longrightarrow> cell_ok (cell_json c)"
  by (simp add: cell_ok_def cell_json_def ident_def)

lemma ident_cell_json: "ident (cell_json c) = cell_id c"
  by (simp add: cell_json_def ident_def)

lemma ident_block_json: "ident (block_json b) = b_id b"
  using block_json_fields(1)[of b] by (simp add: ident_def)

lemma rows_json_ok:
  "\<forall>row \<in> set rows. \<forall>c \<in> set row. cell_id c \<noteq> [] \<Longrightarrow>
   list_all row_ok (map (\<lambda>row. JArr (map cell_json row)) rows)"
  by (induction rows) (auto simp: row_ok_def list_all_iff cell_json_ok)

lemma rows_json_ids:
  "rows_ids (map (\<lambda>row. JArr (map cell_json row)) rows) = concat (map (map cell_id) rows)"
  by (induction rows) (simp_all add: rows_ids_def ident_cell_json comp_def)

lemma block_json_ok:
  assumes wf: "block_wf b" and lv: "\<forall>l. b_level b = Some l \<longrightarrow> 1 \<le> l"
  shows "block_ok (block_json b)" and "block_ids (block_json b) = typed_ids b"
proof -
  note f = block_json_fields[of b]
  have idn: "ident (block_json b) \<noteq> []" using wf by (simp add: ident_block_json block_wf_def)
  show "block_ok (block_json b)"
  proof (cases "b_type b")
    case Table
    with wf obtain rows where rows: "b_rows b = Some rows"
      "\<forall>row \<in> set rows. \<forall>c \<in> set row. cell_id c \<noteq> []"
      by (auto simp: block_wf_def)
    have "rows_of (block_json b) = map (\<lambda>row. JArr (map cell_json row)) rows"
      using f(5) rows(1) by (simp add: rows_of_def)
    then show ?thesis using idn f(2) f(5) rows Table rows_json_ok[OF rows(2)]
      by (simp add: block_ok_def)
  next
    case Heading
    with wf obtain l where l: "b_level b = Some l" by (auto simp: block_wf_def)
    with lv have "1 \<le> l" by simp
    then have "level_ok (block_json b)" using f(4) l by (simp add: level_ok_def)
    moreover have "b_text b \<noteq> None" using wf Heading by (simp add: block_wf_def)
    ultimately show ?thesis using idn f(2) f(3) Heading by (simp add: block_ok_def)
  next
    case ListItem
    with wf obtain l where l: "b_level b = Some l" by (auto simp: block_wf_def)
    with lv have "1 \<le> l" by simp
    then have "level_ok (block_json b)" using f(4) l by (simp add: level_ok_def)
    moreover have "b_text b \<noteq> None" using wf ListItem by (simp add: block_wf_def)
    ultimately show ?thesis using idn f(2) f(3) ListItem by (simp add: block_ok_def)
  next
    case Title
    moreover have "b_text b \<noteq> None" using wf Title by (simp add: block_wf_def)
    ultimately show ?thesis using idn f(2) f(3) by (simp add: block_ok_def)
  next
    case Paragraph
    moreover have "b_text b \<noteq> None" using wf Paragraph by (simp add: block_wf_def)
    ultimately show ?thesis using idn f(2) f(3) by (simp add: block_ok_def)
  qed
  show "block_ids (block_json b) = typed_ids b"
  proof (cases "b_type b = Table")
    case True
    with wf obtain rows where rows: "b_rows b = Some rows" by (auto simp: block_wf_def)
    have "rows_of (block_json b) = map (\<lambda>row. JArr (map cell_json row)) rows"
      using f(5) rows(1) by (simp add: rows_of_def)
    then show ?thesis using True f(2) rows
      by (simp add: block_ids_def typed_ids_def ident_block_json rows_json_ids)
  next
    case False
    with wf have "b_rows b = None" by (simp add: block_wf_def)
    then show ?thesis using False f(2) type_name_eq(5)[of "b_type b"]
      by (simp add: block_ids_def typed_ids_def ident_block_json)
  qed
qed


lemma dec_digits: "x \<in> set (dec n) \<Longrightarrow> 48 \<le> x \<and> x \<le> 57"
proof (induction n rule: dec.induct)
  case (1 n)
  show ?case
  proof (cases "n < 10")
    case True
    with 1(2) show ?thesis by (simp add: dec.simps[of n])
  next
    case False
    with 1(2) have "x \<in> set (dec (n div 10)) \<or> x = 48 + n mod 10" by (auto simp: dec.simps[of n])
    then show ?thesis
    proof
      assume "x \<in> set (dec (n div 10))"
      with 1(1) False show ?thesis by simp
    next
      assume "x = 48 + n mod 10"
      moreover have "n mod 10 < 10" by simp
      ultimately show ?thesis by linarith
    qed
  qed
qed

lemma padStart4_digits: "x \<in> set (padStart4 (dec n)) \<Longrightarrow> 48 \<le> x \<and> x \<le> 57"
  using dec_digits[of x n] by (auto simp: padStart4_def)

lemma split_at_underscore:
  "\<forall>x \<in> set a. x \<noteq> 95 \<Longrightarrow> \<forall>x \<in> set a'. x \<noteq> 95 \<Longrightarrow> a @ 95 # r = a' @ 95 # r' \<Longrightarrow>
   a = a' \<and> r = r'"
proof (induction a arbitrary: a')
  case Nil
  then show ?case by (cases a') auto
next
  case (Cons x a)
  then show ?case by (cases a') auto
qed

lemma make_cell_id_inj:
  assumes "make_cell_id i r c = make_cell_id i' r' c'"
  shows "i = i' \<and> r = r' \<and> c = c'"
proof -
  from assms have e: "padStart4 (dec i) @ 95 # (dec r @ 95 # dec c)
      = padStart4 (dec i') @ 95 # (dec r' @ 95 # dec c')"
    by (simp add: make_cell_id_def)
  have n1: "\<forall>x \<in> set (padStart4 (dec i)). x \<noteq> 95" "\<forall>x \<in> set (padStart4 (dec i')). x \<noteq> 95"
    using padStart4_digits by fastforce+
  from split_at_underscore[OF n1 e] have a: "padStart4 (dec i) = padStart4 (dec i')"
    and e2: "dec r @ 95 # dec c = dec r' @ 95 # dec c'" by simp_all
  have n2: "\<forall>x \<in> set (dec r). x \<noteq> 95" "\<forall>x \<in> set (dec r'). x \<noteq> 95"
    using dec_digits by fastforce+
  from split_at_underscore[OF n2 e2] have b: "dec r = dec r'" and c: "dec c = dec c'" by simp_all
  from a have "digits_value (padStart4 (dec i)) = digits_value (padStart4 (dec i'))" by simp
  then have "i = i'" by (simp add: digits_value_padStart4)
  moreover from b have "digits_value (dec r) = digits_value (dec r')" by simp
  then have "r = r'" by (simp add: digits_value_dec)
  moreover from c have "digits_value (dec c) = digits_value (dec c')" by simp
  then have "c = c'" by (simp add: digits_value_dec)
  ultimately show ?thesis by simp
qed

lemma block_id_not_cell_id: "block_id i \<noteq> make_cell_id j r c"
  by (simp add: block_id_def make_cell_id_def)

lemma extract_cells_ids:
  "distinct (map cell_id (extract_cells i r c0 tcs))
   \<and> (\<forall>x \<in> set (map cell_id (extract_cells i r c0 tcs)). \<exists>c\<ge>c0. x = make_cell_id i r c)"
proof (induction tcs arbitrary: c0)
  case Nil
  then show ?case by simp
next
  case (Cons tc tcs)
  define rest where "rest = map cell_id (extract_cells i r (Suc c0) tcs)"
  have ih: "distinct rest" "\<forall>x \<in> set rest. \<exists>c\<ge>Suc c0. x = make_cell_id i r c"
    unfolding rest_def using Cons.IH[of "Suc c0"] by simp_all
  have eq: "map cell_id (extract_cells i r c0 (tc # tcs)) = make_cell_id i r c0 # rest"
    by (simp add: rest_def)
  have notin: "make_cell_id i r c0 \<notin> set rest"
  proof
    assume "make_cell_id i r c0 \<in> set rest"
    with ih(2) obtain c where c: "Suc c0 \<le> c" "make_cell_id i r c0 = make_cell_id i r c" by blast
    from make_cell_id_inj[OF c(2)] c(1) show False by simp
  qed
  have "\<forall>x \<in> set (make_cell_id i r c0 # rest). \<exists>c\<ge>c0. x = make_cell_id i r c"
  proof
    fix x assume "x \<in> set (make_cell_id i r c0 # rest)"
    then consider "x = make_cell_id i r c0" | "x \<in> set rest" by auto
    then show "\<exists>c\<ge>c0. x = make_cell_id i r c"
    proof cases
      case 1
      then show ?thesis by blast
    next
      case 2
      with ih(2) obtain c where "Suc c0 \<le> c" "x = make_cell_id i r c" by blast
      then have "c0 \<le> c \<and> x = make_cell_id i r c" by simp
      then show ?thesis by blast
    qed
  qed
  then show ?case unfolding eq using ih(1) notin by simp
qed

lemma extract_rows_ids:
  "distinct (concat (map (map cell_id) (extract_rows i r0 trs)))
   \<and> (\<forall>x \<in> set (concat (map (map cell_id) (extract_rows i r0 trs))). \<exists>r\<ge>r0. \<exists>c. x = make_cell_id i r c)"
proof (induction trs arbitrary: r0)
  case Nil
  then show ?case by simp
next
  case (Cons tr trs)
  define hd_ids where "hd_ids = map cell_id (extract_cells i r0 0 (getDirectChildren tr (str ''w:tc'')))"
  define tl_ids where "tl_ids = concat (map (map cell_id) (extract_rows i (Suc r0) trs))"
  have h: "distinct hd_ids" "\<forall>x \<in> set hd_ids. \<exists>c\<ge>0. x = make_cell_id i r0 c"
    unfolding hd_ids_def using extract_cells_ids[of i r0 0] by simp_all
  have t: "distinct tl_ids" "\<forall>x \<in> set tl_ids. \<exists>r\<ge>Suc r0. \<exists>c. x = make_cell_id i r c"
    unfolding tl_ids_def using Cons.IH[of "Suc r0"] by simp_all
  have disj: "set hd_ids \<inter> set tl_ids = {}"
  proof (rule ccontr)
    assume "set hd_ids \<inter> set tl_ids \<noteq> {}"
    then obtain x where x: "x \<in> set hd_ids" "x \<in> set tl_ids" by auto
    from h(2) x(1) obtain c where c: "x = make_cell_id i r0 c" by blast
    from t(2) x(2) obtain r c' where r: "Suc r0 \<le> r" "x = make_cell_id i r c'" by blast
    from c r(2) have "make_cell_id i r0 c = make_cell_id i r c'" by simp
    from make_cell_id_inj[OF this] r(1) show False by simp
  qed
  have eq: "concat (map (map cell_id) (extract_rows i r0 (tr # trs))) = hd_ids @ tl_ids"
    by (simp add: hd_ids_def tl_ids_def)
  have "\<forall>x \<in> set (hd_ids @ tl_ids). \<exists>r\<ge>r0. \<exists>c. x = make_cell_id i r c"
  proof
    fix x assume "x \<in> set (hd_ids @ tl_ids)"
    then consider "x \<in> set hd_ids" | "x \<in> set tl_ids" by auto
    then show "\<exists>r\<ge>r0. \<exists>c. x = make_cell_id i r c"
    proof cases
      case 1
      with h(2) obtain c where "x = make_cell_id i r0 c" by blast
      then have "r0 \<le> r0 \<and> (\<exists>c. x = make_cell_id i r0 c)" by blast
      then show ?thesis by blast
    next
      case 2
      with t(2) obtain r c where "Suc r0 \<le> r" "x = make_cell_id i r c" by blast
      then have "r0 \<le> r \<and> (\<exists>c. x = make_cell_id i r c)" by auto
      then show ?thesis by blast
    qed
  qed
  then show ?case unfolding eq using h(1) t(1) disj by simp
qed


lemma ids_at_unique: "ids_at i x \<Longrightarrow> ids_at j x \<Longrightarrow> i = j"
  unfolding ids_at_def
  using block_id_inj[of i j] block_id_not_cell_id make_cell_id_inj
  by metis

lemma classify_type:
  "c_type (classifyParagraph p hs) \<noteq> Table \<and> c_type (classifyParagraph p hs) \<noteq> Title
   \<and> (c_type (classifyParagraph p hs) = Heading \<or> c_type (classifyParagraph p hs) = ListItem
        \<longrightarrow> c_level (classifyParagraph p hs) \<noteq> None)"
  by (simp add: classifyParagraph_def Let_def split: option.splits)

lemma block_id_nonempty: "block_id i \<noteq> []"
  by (simp add: block_id_def)

lemma make_cell_id_nonempty: "make_cell_id i r c \<noteq> []"
  by (simp add: make_cell_id_def)

lemma paragraph_block_ids:
  assumes "paragraph_block hs i n = Some b"
  shows "block_wf b" "typed_ids b = [block_id i]"
proof -
  from assms have b: "b = \<lparr>b_id = block_id i, b_type = c_type (classifyParagraph n hs),
                       b_text = Some (c_text (classifyParagraph n hs)),
                       b_level = (if c_type (classifyParagraph n hs) = Heading
                                     \<or> c_type (classifyParagraph n hs) = ListItem
                                  then c_level (classifyParagraph n hs) else None),
                       b_rows = None\<rparr>"
    by (auto simp: paragraph_block_def Let_def split: if_splits)
  show "block_wf b" unfolding b using classify_type[of n hs] block_id_nonempty[of i]
    by (simp add: block_wf_def)
  show "typed_ids b = [block_id i]" unfolding b by (simp add: typed_ids_def)
qed

lemma extractTable_ids:
  "block_wf (extractTable n i)"
  "distinct (typed_ids (extractTable n i))"
  "\<forall>x \<in> set (typed_ids (extractTable n i)). ids_at i x"
proof -
  define rows where "rows = extract_rows i 0 (getDirectChildren n (str ''w:tr''))"
  define ids where "ids = concat (map (map cell_id) rows)"
  have r: "distinct ids" "\<forall>x \<in> set ids. \<exists>r\<ge>0. \<exists>c. x = make_cell_id i r c"
    unfolding ids_def rows_def using extract_rows_ids[of i 0] by simp_all
  have t: "typed_ids (extractTable n i) = block_id i # ids"
    by (simp add: typed_ids_def extractTable_def ids_def rows_def)
  have notin: "block_id i \<notin> set ids"
  proof
    assume "block_id i \<in> set ids"
    with r(2) obtain r c where "block_id i = make_cell_id i r c" by blast
    then show False using block_id_not_cell_id by blast
  qed
  show "distinct (typed_ids (extractTable n i))" unfolding t using r(1) notin by simp
  show "\<forall>x \<in> set (typed_ids (extractTable n i)). ids_at i x"
    unfolding t using r(2) by (auto simp: ids_at_def)
  have "\<forall>row \<in> set rows. \<forall>c \<in> set row. cell_id c \<noteq> []"
  proof (intro ballI)
    fix row c assume "row \<in> set rows" "c \<in> set row"
    then have "cell_id c \<in> set ids" unfolding ids_def by auto
    with r(2) obtain r' c' where "cell_id c = make_cell_id i r' c'" by blast
    then show "cell_id c \<noteq> []" using make_cell_id_nonempty by simp
  qed
  then show "block_wf (extractTable n i)"
    using block_id_nonempty[of i] by (simp add: block_wf_def extractTable_def rows_def)
qed

lemma emit_ids:
  assumes "emit hs i n = Some b"
  shows "block_wf b" "distinct (typed_ids b)" "\<forall>x \<in> set (typed_ids b). ids_at i x"
proof -
  show "block_wf b" using assms paragraph_block_ids(1)[of hs i n b] extractTable_ids(1)[of n i]
    by (auto simp: emit_def split: if_splits)
  show "distinct (typed_ids b)" using assms paragraph_block_ids(2)[of hs i n b] extractTable_ids(2)[of n i]
    by (auto simp: emit_def split: if_splits)
  show "\<forall>x \<in> set (typed_ids b). ids_at i x"
    using assms paragraph_block_ids(2)[of hs i n b] extractTable_ids(3)[of n i]
    by (auto simp: emit_def ids_at_def split: if_splits)
qed

lemma emitted_ids:
  "list_all block_wf (List.map_filter (\<lambda>(i, n). emit hs i n) (enumerate idx nodes))
   \<and> distinct (concat (map typed_ids (List.map_filter (\<lambda>(i, n). emit hs i n) (enumerate idx nodes))))
   \<and> (\<forall>x \<in> set (concat (map typed_ids (List.map_filter (\<lambda>(i, n). emit hs i n) (enumerate idx nodes)))).
        \<exists>j\<ge>idx. ids_at j x)"
proof (induction nodes arbitrary: idx)
  case Nil
  then show ?case by (simp add: List.map_filter_simps)
next
  case (Cons n nodes)
  define rest where "rest = List.map_filter (\<lambda>(i, n). emit hs i n) (enumerate (Suc idx) nodes)"
  have ih: "list_all block_wf rest" "distinct (concat (map typed_ids rest))"
    "\<forall>x \<in> set (concat (map typed_ids rest)). \<exists>j\<ge>Suc idx. ids_at j x"
    unfolding rest_def using Cons.IH[of "Suc idx"] by simp_all
  have later: "\<forall>x \<in> set (concat (map typed_ids rest)). \<exists>j\<ge>idx. ids_at j x"
  proof
    fix x assume "x \<in> set (concat (map typed_ids rest))"
    with ih(3) obtain j where "Suc idx \<le> j" "ids_at j x" by blast
    then have "idx \<le> j \<and> ids_at j x" by simp
    then show "\<exists>j\<ge>idx. ids_at j x" by blast
  qed
  show ?case
  proof (cases "emit hs idx n")
    case None
    then have "List.map_filter (\<lambda>(i, n). emit hs i n) (enumerate idx (n # nodes)) = rest"
      by (simp add: rest_def List.map_filter_simps)
    then show ?thesis using ih(1,2) later by simp
  next
    case (Some b)
    then have eq: "List.map_filter (\<lambda>(i, n). emit hs i n) (enumerate idx (n # nodes)) = b # rest"
      by (simp add: rest_def List.map_filter_simps)
    note e = emit_ids[OF Some]
    have disj: "set (typed_ids b) \<inter> set (concat (map typed_ids rest)) = {}"
    proof (rule ccontr)
      assume "set (typed_ids b) \<inter> set (concat (map typed_ids rest)) \<noteq> {}"
      then obtain x where x: "x \<in> set (typed_ids b)" "x \<in> set (concat (map typed_ids rest))" by auto
      from e(3) x(1) have "ids_at idx x" by blast
      moreover from ih(3) x(2) obtain j where "Suc idx \<le> j" "ids_at j x" by blast
      ultimately show False using ids_at_unique[of idx x j] by simp
    qed
    have all: "\<forall>x \<in> set (concat (map typed_ids (b # rest))). \<exists>j\<ge>idx. ids_at j x"
    proof
      fix x assume "x \<in> set (concat (map typed_ids (b # rest)))"
      then consider "x \<in> set (typed_ids b)" | "x \<in> set (concat (map typed_ids rest))" by auto
      then show "\<exists>j\<ge>idx. ids_at j x"
      proof cases
        case 1
        with e(3) have "idx \<le> idx \<and> ids_at idx x" by simp
        then show ?thesis by blast
      next
        case 2
        with later show ?thesis by blast
      qed
    qed
    show ?thesis unfolding eq using e(1,2) ih(1,2) disj all by simp
  qed
qed

lemma title_pass_wf:
  "list_all block_wf bs \<Longrightarrow> list_all block_wf (title_pass bs)"
  by (induction bs) (auto simp: block_wf_def)

lemma title_pass_typed_ids: "map typed_ids (title_pass bs) = map typed_ids bs"
  by (induction bs) (simp_all add: typed_ids_def)

lemma extracted_document_ok:
  assumes ex: "extractDocx (Some doc) hs f now = Inr d"
    and lv: "\<forall>b \<in> set (doc_blocks d). \<forall>l. b_level b = Some l \<longrightarrow> 1 \<le> l"
  shows "document_ok (document_json d)"
proof -
  define cs where "cs = childNodes (hd (elements_in doc (str ''w:body'')))"
  define bs where "bs = doc_blocks d"
  have bs: "bs = title_pass (extract_loop hs cs 0 [])"
    unfolding bs_def cs_def using extractDocx_blocks[OF ex] by simp
  have loop: "extract_loop hs cs 0 [] = List.map_filter (\<lambda>(i, n). emit hs i n) (enumerate 0 (block_nodes cs))"
    using extract_loop_enumerate[of hs cs 0 "[]"] by simp
  have wf0: "list_all block_wf (extract_loop hs cs 0 [])"
    and d0: "distinct (concat (map typed_ids (extract_loop hs cs 0 [])))"
    unfolding loop using emitted_ids[of hs 0 "block_nodes cs"] by simp_all
  have wf: "list_all block_wf bs" unfolding bs using wf0 by (rule title_pass_wf)
  have di: "distinct (concat (map typed_ids bs))" unfolding bs title_pass_typed_ids using d0 .
  have lv': "\<forall>b \<in> set bs. \<forall>l. b_level b = Some l \<longrightarrow> 1 \<le> l"
    using lv by (simp add: bs_def)
  have each: "\<And>b. b \<in> set bs \<Longrightarrow> block_ok (block_json b) \<and> block_ids (block_json b) = typed_ids b"
  proof -
    fix b assume b: "b \<in> set bs"
    then have "block_wf b" using wf by (simp add: list_all_iff)
    moreover have "\<forall>l. b_level b = Some l \<longrightarrow> 1 \<le> l" using lv' b by blast
    ultimately show "block_ok (block_json b) \<and> block_ids (block_json b) = typed_ids b"
      using block_json_ok[of b] by simp
  qed
  have ok: "list_all block_ok (map block_json bs)"
    using each by (simp add: list_all_iff)
  have m: "map block_ids (map block_json bs) = map typed_ids bs"
    using each by simp
  have dj: "distinct (concat (map block_ids (map block_json bs)))"
    unfolding m by (rule di)
  have "document_ok (JObj [(str ''metadata'',
            JObj [(str ''fileName'', JStr (fileName (doc_metadata d))),
                  (str ''extractedAt'', JStr (extractedAt (doc_metadata d))),
                  (str ''blockCount'', JNum (of_nat (blockCount (doc_metadata d)))),
                  (str ''tableCount'', JNum (of_nat (tableCount (doc_metadata d))))]),
           (str ''blocks'', JArr (map block_json bs))])"
    using ok dj by (simp add: document_ok_def)
  then show ?thesis unfolding bs_def document_json_def .
qed

lemma extracted_self_validation:
  assumes "extractDocx (Some doc) hs f now = Inr d"
    and "\<forall>b \<in> set (doc_blocks d). \<forall>l. b_level b = Some l \<longrightarrow> 1 \<le> l"
  shows "validateModifiedJson (document_json d) (document_json d) = Some \<lparr>valid = True, errors = []\<rparr>"
  using assms by (intro self_validation extracted_document_ok)

text \<open>
  The document \<^verbatim>\<open>Hello World\<close> extracts to one title block, a Document of the data
  model, which validates against itself.
\<close>

lemma hello_world:
  "extractDocx (Some hello_docx) Map.empty None (str ''2026-01-01T00:00:00.000Z'') = Inr hello_document"
  "document_ok (document_json hello_document)"
  "validateModifiedJson (document_json hello_document) (document_json hello_document)
     = Some \<lparr>valid = True, errors = []\<rparr>"
proof -
  show "extractDocx (Some hello_docx) Map.empty None (str ''2026-01-01T00:00:00.000Z'') = Inr hello_document"
    by (simp add: hello_docx_def hello_document_def extract_defs classify_defs format_defs fixture_defs)
  show ok: "document_ok (document_json hello_document)"
    by (simp add: hello_document_def json_defs document_ok_def block_ok_def block_ids_def ident_def)
  show "validateModifiedJson (document_json hello_document) (document_json hello_document)
     = Some \<lparr>valid = True, errors = []\<rparr>"
    using ok by (rule self_validation)
qed

text \<open>
  C2 (self validation). A Document of the data model validates against itself
  (\<open>self_validation\<close>), and so does a Document produced by \<^verbatim>\<open>extractDocx\<close> whose levels
  are all at least 1 (\<open>extracted_self_validation\<close>). Another one need not: for a list item
  with \<^verbatim>\<open><w:ilvl w:val="-1"/>\<close>, \<^verbatim>\<open>getListLevel\<close> computes \<^verbatim>\<open>(-1 || 0) + 1 = 0\<close>, the
  extractor emits a list item of level 0, and the validator rejects that Document
  against itself with the violation of the level.
\<close>

theorem extracted_document_rejected:
  "extractDocx (Some negative_ilvl_docx) Map.empty None (str ''2026-01-01T00:00:00.000Z'')
     = Inr negative_ilvl_document
   \<and> validateModifiedJson (document_json negative_ilvl_document) (document_json negative_ilvl_document)
     = Some \<lparr>valid = False, errors = [ListLevelInvalid 0 (str ''block_0000'')]\<rparr>"
proof
  show "extractDocx (Some negative_ilvl_docx) Map.empty None (str ''2026-01-01T00:00:00.000Z'')
     = Inr negative_ilvl_document"
    by (simp add: negative_ilvl_docx_def negative_ilvl_document_def extract_defs classify_defs
          format_defs fixture_defs)
  show "validateModifiedJson (document_json negative_ilvl_document) (document_json negative_ilvl_document)
     = Some \<lparr>valid = False, errors = [ListLevelInvalid 0 (str ''block_0000'')]\<rparr>"
    by (simp add: negative_ilvl_document_def json_defs validator_defs)
qed


theorem extracted_document_rejected_witness:
  "validateModifiedJson (document_json negative_ilvl_document) (document_json negative_ilvl_document)
     = Some \<lparr>valid = False, errors = [ListLevelInvalid 0 (str ''block_0000'')]\<rparr>"
  using extracted_document_rejected by (rule conjunct2)

end
